theory Spec2Isabelle
  imports Complex_Main
begin

chapter \<open>The model\<close>

section \<open>JavaScript numbers\<close>

text \<open>
  A JavaScript number is modelled as a real number or one of the three non-finite values.
  The operations of this section are exact on finite values (rounding, overflow and the
  sign of zero are not modelled; a zero divisor counts as \<open>+0\<close>); the operations that
  round to binary64 and overflow are built on them in the section on binary64 arithmetic.
  The non-finite values follow IEEE 754 as JavaScript does: \<open>NaN\<close> is contagious,
  compares false with everything, and \<open>Math.max\<close>/\<open>Math.min\<close> return \<open>NaN\<close> as soon
  as one argument is \<open>NaN\<close>.
\<close>

datatype jsnum = Fin real | PInf | NInf | NaN

fun js_neg :: "jsnum \<Rightarrow> jsnum" where
  "js_neg (Fin a) = Fin (- a)"
| "js_neg PInf = NInf"
| "js_neg NInf = PInf"
| "js_neg NaN = NaN"

fun js_add :: "jsnum \<Rightarrow> jsnum \<Rightarrow> jsnum" where
  "js_add NaN _ = NaN"
| "js_add _ NaN = NaN"
| "js_add (Fin a) (Fin b) = Fin (a + b)"
| "js_add PInf NInf = NaN"
| "js_add NInf PInf = NaN"
| "js_add PInf _ = PInf"
| "js_add _ PInf = PInf"
| "js_add NInf _ = NInf"
| "js_add _ NInf = NInf"

definition js_sub :: "jsnum \<Rightarrow> jsnum \<Rightarrow> jsnum" where
  "js_sub a b = js_add a (js_neg b)"

fun js_mul :: "jsnum \<Rightarrow> jsnum \<Rightarrow> jsnum" where
  "js_mul NaN _ = NaN"
| "js_mul _ NaN = NaN"
| "js_mul (Fin a) (Fin b) = Fin (a * b)"
| "js_mul (Fin a) PInf = (if a = 0 then NaN else if 0 < a then PInf else NInf)"
| "js_mul (Fin a) NInf = (if a = 0 then NaN else if 0 < a then NInf else PInf)"
| "js_mul PInf (Fin b) = (if b = 0 then NaN else if 0 < b then PInf else NInf)"
| "js_mul NInf (Fin b) = (if b = 0 then NaN else if 0 < b then NInf else PInf)"
| "js_mul PInf PInf = PInf"
| "js_mul PInf NInf = NInf"
| "js_mul NInf PInf = NInf"
| "js_mul NInf NInf = PInf"

fun js_div :: "jsnum \<Rightarrow> jsnum \<Rightarrow> jsnum" where
  "js_div NaN _ = NaN"
| "js_div _ NaN = NaN"
| "js_div (Fin a) (Fin b) =
     (if b = 0 then (if a = 0 then NaN else if 0 < a then PInf else NInf) else Fin (a / b))"
| "js_div (Fin a) _ = Fin 0"
| "js_div PInf (Fin b) = (if 0 \<le> b then PInf else NInf)"
| "js_div NInf (Fin b) = (if 0 \<le> b then NInf else PInf)"
| "js_div _ _ = NaN"

fun js_lt :: "jsnum \<Rightarrow> jsnum \<Rightarrow> bool" where
  "js_lt (Fin a) (Fin b) = (a < b)"
| "js_lt (Fin a) PInf = True"
| "js_lt NInf (Fin b) = True"
| "js_lt NInf PInf = True"
| "js_lt _ _ = False"

definition js_le :: "jsnum \<Rightarrow> jsnum \<Rightarrow> bool" where
  "js_le a b = (js_lt a b \<or> (a = b \<and> a \<noteq> NaN))"

definition js_gt :: "jsnum \<Rightarrow> jsnum \<Rightarrow> bool" where
  "js_gt a b = js_lt b a"

definition js_ge :: "jsnum \<Rightarrow> jsnum \<Rightarrow> bool" where
  "js_ge a b = js_le b a"

definition isNaN :: "jsnum \<Rightarrow> bool" where
  "isNaN a = (a = NaN)"

definition js_max :: "jsnum \<Rightarrow> jsnum \<Rightarrow> jsnum" where
  \<comment> \<open>\<open>Math.max(a, b)\<close>\<close>
  "js_max a b = (if a = NaN \<or> b = NaN then NaN else if js_lt a b then b else a)"

definition js_min :: "jsnum \<Rightarrow> jsnum \<Rightarrow> jsnum" where
  \<comment> \<open>\<open>Math.min(a, b)\<close>\<close>
  "js_min a b = (if a = NaN \<or> b = NaN then NaN else if js_lt b a then b else a)"

fun js_abs :: "jsnum \<Rightarrow> jsnum" where
  \<comment> \<open>\<open>Math.abs\<close>\<close>
  "js_abs (Fin a) = Fin \<bar>a\<bar>"
| "js_abs NaN = NaN"
| "js_abs _ = PInf"

fun js_sin :: "jsnum \<Rightarrow> jsnum" where
  \<comment> \<open>\<open>Math.sin\<close>\<close>
  "js_sin (Fin a) = Fin (sin a)"
| "js_sin _ = NaN"

fun js_mod :: "jsnum \<Rightarrow> jsnum \<Rightarrow> jsnum" where
  \<comment> \<open>the remainder operator \<open>%\<close>: the result takes the sign of the dividend\<close>
  "js_mod (Fin a) (Fin b) =
     (if b = 0 then NaN
      else Fin (a - b * of_int (if 0 \<le> a / b then \<lfloor>a / b\<rfloor> else \<lceil>a / b\<rceil>)))"
| "js_mod (Fin a) PInf = Fin a"
| "js_mod (Fin a) NInf = Fin a"
| "js_mod _ _ = NaN"

definition MathPI :: jsnum where
  "MathPI = Fin pi"

text \<open>Finite numbers, and the real value of one (\<open>0\<close> for the others).\<close>

fun is_fin :: "jsnum \<Rightarrow> bool" where
  "is_fin (Fin a) = True"
| "is_fin _ = False"

fun val :: "jsnum \<Rightarrow> real" where
  "val (Fin a) = a"
| "val _ = 0"

section \<open>The enhanced PID controller (pid-controller-enhanced.js)\<close>

record components =
  comp_p :: jsnum
  comp_i :: jsnum
  comp_d :: jsnum

record outputEntry =
  output_value :: jsnum
  timestamp :: int
  components :: components

text \<open>
  The controller object. Clock readings (\<open>Date.now()\<close>, integral milliseconds) are
  inputs of the operations that read the clock, one per call of \<open>Date.now()\<close>.
\<close>

record pid =
  kp :: jsnum
  ki :: jsnum
  kd :: jsnum
  setpoint :: jsnum
  previousError :: jsnum
  integral :: jsnum
  lastTime :: int
  lastOutput :: jsnum
  errorHistory :: "jsnum list"
  outputHistory :: "outputEntry list"
  maxHistoryLength :: nat
  integralMax :: jsnum
  integralMin :: jsnum
  outputMax :: jsnum
  outputMin :: jsnum
  alpha :: jsnum
  filteredDerivative :: jsnum
  maxRate :: jsnum
  lastUpdateTime :: int

definition PIDController :: "jsnum \<Rightarrow> jsnum \<Rightarrow> jsnum \<Rightarrow> int \<Rightarrow> int \<Rightarrow> pid" where
  \<comment> \<open>the constructor; \<open>now1\<close> and \<open>now2\<close> are its two clock readings\<close>
  "PIDController kp0 ki0 kd0 now1 now2 =
     \<lparr>kp = kp0, ki = ki0, kd = kd0,
      setpoint = Fin 0, previousError = Fin 0, integral = Fin 0,
      lastTime = now1, lastOutput = Fin 0,
      errorHistory = [], outputHistory = [], maxHistoryLength = 1000,
      integralMax = Fin 50, integralMin = Fin (- 50),
      outputMax = Fin 100, outputMin = Fin (- 100),
      alpha = Fin 0.15, filteredDerivative = Fin 0,
      maxRate = Fin 20, lastUpdateTime = now2\<rparr>"

definition setParameters :: "pid \<Rightarrow> jsnum \<Rightarrow> jsnum \<Rightarrow> jsnum \<Rightarrow> pid" where
  "setParameters s kp' ki' kd' = s\<lparr>kp := kp', ki := ki', kd := kd'\<rparr>"

definition setGains :: "pid \<Rightarrow> jsnum \<Rightarrow> jsnum \<Rightarrow> jsnum \<Rightarrow> pid" where
  "setGains s kp' ki' kd' = s\<lparr>kp := kp', ki := ki', kd := kd'\<rparr>"

definition reset :: "pid \<Rightarrow> int \<Rightarrow> pid" where
  "reset s now =
     s\<lparr>previousError := Fin 0, integral := Fin 0, filteredDerivative := Fin 0,
       lastTime := now, errorHistory := [], outputHistory := [], lastOutput := Fin 0\<rparr>"

definition storeHistory :: "pid \<Rightarrow> jsnum \<Rightarrow> jsnum \<Rightarrow> components \<Rightarrow> int \<Rightarrow> pid" where
  "storeHistory s error out comps now =
     (let s1 = s\<lparr>errorHistory := errorHistory s @ [error],
                 outputHistory := outputHistory s
                    @ [\<lparr>output_value = out, timestamp = now, components = comps\<rparr>]\<rparr>
      in if length (errorHistory s1) > maxHistoryLength s1
         then s1\<lparr>errorHistory := tl (errorHistory s1), outputHistory := tl (outputHistory s1)\<rparr>
         else s1)"

definition effective_dt :: "pid \<Rightarrow> jsnum option \<Rightarrow> int \<Rightarrow> jsnum" where
  \<comment> \<open>lines 66-74 of \<open>calculate\<close>: the timestep the rest of the body works with\<close>
  "effective_dt s deltaTime currentTime =
     (let dt = (case deltaTime of
                  None \<Rightarrow> js_div (Fin (of_int (currentTime - lastTime s))) (Fin 1000)
                | Some dt0 \<Rightarrow> dt0)
      in if js_le dt (Fin 0) then Fin 0.001 else dt)"

definition calculate :: "pid \<Rightarrow> jsnum \<Rightarrow> jsnum \<Rightarrow> jsnum option \<Rightarrow> int \<Rightarrow> int \<Rightarrow> pid \<times> jsnum" where
  \<comment> \<open>\<open>currentTime\<close> is the clock reading at entry, \<open>stamp\<close> the one taken by
      \<open>storeHistory\<close>; a \<open>null\<close> (omitted) \<open>deltaTime\<close> is \<open>None\<close>. The fields the body
      assigns on its way are written back together at the end.\<close>
  "calculate s sp currentValue deltaTime0 currentTime stamp =
     (let deltaTime = effective_dt s deltaTime0 currentTime;
          error = js_sub sp currentValue;
          proportional = js_mul (kp s) error;
          integral1 = js_add (integral s) (js_mul error deltaTime);
          integral2 = js_max (integralMin s) (js_min (integralMax s) integral1);
          integral_term = js_mul (ki s) integral2;
          filtered = (if js_gt deltaTime (Fin 0)
                      then js_add (js_mul (alpha s)
                                     (js_div (js_sub error (previousError s)) deltaTime))
                                  (js_mul (js_sub (Fin 1) (alpha s)) (filteredDerivative s))
                      else filteredDerivative s);
          derivative = (if js_gt deltaTime (Fin 0) then js_mul (kd s) filtered else Fin 0);
          output1 = js_add (js_add proportional integral_term) derivative;
          maxChange = js_mul (maxRate s) deltaTime;
          output2 = js_max (js_sub (lastOutput s) maxChange)
                           (js_min (js_add (lastOutput s) maxChange) output1);
          output3 = js_max (outputMin s) (js_min (outputMax s) output2);
          s' = s\<lparr>setpoint := sp, integral := integral2, filteredDerivative := filtered,
                  previousError := error, lastTime := currentTime, lastOutput := output3\<rparr>
      in (storeHistory s' error output3
            \<lparr>comp_p = proportional, comp_i = integral_term, comp_d = derivative\<rparr> stamp,
          output3))"

definition update :: "pid \<Rightarrow> jsnum \<Rightarrow> int \<Rightarrow> int \<Rightarrow> pid \<times> jsnum" where
  \<comment> \<open>the alias kept for backward compatibility: no timestep is passed\<close>
  "update s currentValue currentTime stamp =
     calculate s (setpoint s) currentValue None currentTime stamp"

definition createDefault :: "int \<Rightarrow> int \<Rightarrow> pid" where
  "createDefault now1 now2 = PIDController (Fin 2.5) (Fin 0.1) (Fin 0.8) now1 now2"

subsection \<open>Auto-tuning\<close>

text \<open>
  \<open>autoTune\<close> runs \<open>calculate\<close> up to 1000 times at a timestep of 0.02 s and records
  the sign changes of the output. \<open>autoTune_body\<close> is one pass of that loop up to the
  test that leaves it; \<open>clock\<close> gives the two clock readings \<open>calculate\<close> takes in the
  pass with the given index. The result object's \<open>newParams\<close> are the three fields
  \<open>new_kp\<close>, \<open>new_ki\<close>, \<open>new_kd\<close>.
\<close>

record peak =
  peak_time :: jsnum
  peak_value :: jsnum
  peak_period :: jsnum

record tune_state =
  ctrl :: pid
  peaks :: "peak list"
  lastOutput_local :: jsnum
  lastCrossing :: nat

record tune_result =
  success :: bool
  cycles :: nat
  period :: jsnum
  amplitude :: jsnum
  new_kp :: jsnum
  new_ki :: jsnum
  new_kd :: jsnum

definition autoTune_body :: "(nat \<Rightarrow> int \<times> int) \<Rightarrow> jsnum \<Rightarrow> jsnum \<Rightarrow> nat \<Rightarrow> tune_state \<Rightarrow> tune_state" where
  "autoTune_body clock processVariable sp n st =
     (let (c', out) = calculate (ctrl st) sp processVariable (Some (Fin 0.02))
                        (fst (clock n)) (snd (clock n));
          crossing = js_lt (js_mul (lastOutput_local st) out) (Fin 0);
          period_n = Fin (real_of_int (int n - int (lastCrossing st)) * 0.02)
      in \<lparr>ctrl = c',
          peaks = (if crossing \<and> js_gt period_n (Fin 0.1)
                   then peaks st @ [\<lparr>peak_time = Fin (real n * 0.02), peak_value = out,
                                      peak_period = period_n\<rparr>]
                   else peaks st),
          lastOutput_local = out,
          lastCrossing = (if crossing then n else lastCrossing st)\<rparr>)"

function autoTune_loop ::
  "(nat \<Rightarrow> int \<times> int) \<Rightarrow> jsnum \<Rightarrow> jsnum \<Rightarrow> jsnum \<Rightarrow> nat \<Rightarrow> tune_state \<Rightarrow> tune_state" where
  "autoTune_loop clock processVariable sp cycles_wanted n st =
     (if n < 1000
      then let st' = autoTune_body clock processVariable sp n st
           in if js_ge (Fin (real (length (peaks st')))) (js_mul cycles_wanted (Fin 2))
              then st'
              else autoTune_loop clock processVariable sp cycles_wanted (n + 1) st'
      else st)"
  by pat_completeness auto
termination
  by (relation "measure (\<lambda>(clock, pv, sp, cyc, n, st). 1000 - n)") auto

definition autoTune ::
  "pid \<Rightarrow> jsnum \<Rightarrow> jsnum \<Rightarrow> jsnum option \<Rightarrow> (nat \<Rightarrow> int \<times> int) \<Rightarrow> pid \<times> tune_result" where
  "autoTune s processVariable sp cycles_arg clock =
     (let cycles_wanted = (case cycles_arg of None \<Rightarrow> Fin 5 | Some c \<Rightarrow> c);
          kp0 = kp s;
          currentIntegral = integral s;
          currentDerivative = filteredDerivative s;
          currentError = previousError s;
          st = autoTune_loop clock processVariable sp cycles_wanted 0
                 \<lparr>ctrl = s, peaks = [], lastOutput_local = Fin 0, lastCrossing = 0\<rparr>;
          ps = peaks st;
          k = length ps;
          s1 = (if k \<ge> 4
                then let periods =
                           map (\<lambda>j. js_sub (peak_time (ps ! j)) (peak_time (ps ! (j - 1))))
                             [1..<k];
                         sumAmplitude =
                           foldl (\<lambda>a j. js_add a (js_abs (peak_value (ps ! j)))) (Fin 0)
                             [1..<k];
                         avgPeriod = js_div (foldl js_add (Fin 0) periods)
                                       (Fin (real (length periods)));
                         avgAmplitude = js_div sumAmplitude (Fin (real (k - 1)));
                         ku = js_div (js_mul (Fin 4) kp0) (js_mul MathPI avgAmplitude);
                         pu = avgPeriod
                     in (ctrl st)\<lparr>kp := js_mul (Fin 0.6) ku,
                                   ki := js_div (js_mul (Fin 1.2) ku) pu,
                                   kd := js_mul (js_mul (Fin 0.075) ku) pu\<rparr>
                else ctrl st);
          s2 = s1\<lparr>integral := currentIntegral, filteredDerivative := currentDerivative,
                  previousError := currentError\<rparr>
      in (s2,
          \<lparr>success = (k \<ge> 4),
           cycles = k div 2,
           period = (if k \<ge> 2
                     then js_div (js_sub (peak_time (last ps)) (peak_time (hd ps)))
                            (Fin (real (k - 1)))
                     else Fin 0),
           amplitude = (if k > 0
                        then js_div (foldl (\<lambda>sum pk. js_add sum (js_abs (peak_value pk)))
                                      (Fin 0) ps) (Fin (real k))
                        else Fin 0),
           new_kp = kp s2, new_ki = ki s2, new_kd = kd s2\<rparr>))"

section \<open>The basic PID controller (pid-controller.js)\<close>

text \<open>
  The second class of the same name; its fields and methods carry the suffixes \<open>_b\<close> and
  \<open>_basic\<close>. Its \<open>update\<close> returns the number \<open>0\<close> when no time has passed and a
  result object otherwise.
\<close>

record pid_basic =
  kp_b :: jsnum
  ki_b :: jsnum
  kd_b :: jsnum
  setpoint_b :: jsnum
  previousError_b :: jsnum
  integral_b :: jsnum
  lastTime_b :: int
  errorHistory_b :: "jsnum list"
  outputHistory_b :: "jsnum list"
  maxHistoryLength_b :: nat
  integralMax_b :: jsnum
  integralMin_b :: jsnum
  outputMax_b :: jsnum
  outputMin_b :: jsnum

record basic_result =
  res_output :: jsnum
  res_error :: jsnum
  res_proportional :: jsnum
  res_integral :: jsnum
  res_derivative :: jsnum
  res_components :: components

datatype basic_return = Zero | Result basic_result

definition PIDController_basic :: "jsnum \<Rightarrow> jsnum \<Rightarrow> jsnum \<Rightarrow> int \<Rightarrow> pid_basic" where
  "PIDController_basic kp0 ki0 kd0 now =
     \<lparr>kp_b = kp0, ki_b = ki0, kd_b = kd0,
      setpoint_b = Fin 0, previousError_b = Fin 0, integral_b = Fin 0, lastTime_b = now,
      errorHistory_b = [], outputHistory_b = [], maxHistoryLength_b = 1000,
      integralMax_b = Fin 100, integralMin_b = Fin (- 100),
      outputMax_b = Fin 50, outputMin_b = Fin (- 50)\<rparr>"

definition setGains_basic :: "pid_basic \<Rightarrow> jsnum \<Rightarrow> jsnum \<Rightarrow> jsnum \<Rightarrow> pid_basic" where
  "setGains_basic s kp' ki' kd' = s\<lparr>kp_b := kp', ki_b := ki', kd_b := kd'\<rparr>"

definition setSetpoint_basic :: "pid_basic \<Rightarrow> jsnum \<Rightarrow> pid_basic" where
  "setSetpoint_basic s sp = s\<lparr>setpoint_b := sp\<rparr>"

definition reset_basic :: "pid_basic \<Rightarrow> int \<Rightarrow> pid_basic" where
  "reset_basic s now =
     s\<lparr>previousError_b := Fin 0, integral_b := Fin 0, lastTime_b := now,
       errorHistory_b := [], outputHistory_b := []\<rparr>"

definition update_basic :: "pid_basic \<Rightarrow> jsnum \<Rightarrow> int \<Rightarrow> pid_basic \<times> basic_return" where
  "update_basic s currentValue currentTime =
     (let deltaTime = js_div (Fin (of_int (currentTime - lastTime_b s))) (Fin 1000)
      in if js_le deltaTime (Fin 0) then (s, Zero)
         else
           let error = js_sub (setpoint_b s) currentValue;
               proportional = js_mul (kp_b s) error;
               integral1 = js_add (integral_b s) (js_mul error deltaTime);
               integral2 = js_max (integralMin_b s) (js_min (integralMax_b s) integral1);
               integral_term = js_mul (ki_b s) integral2;
               derivative = js_div (js_mul (kd_b s) (js_sub error (previousError_b s))) deltaTime;
               output1 = js_add (js_add proportional integral_term) derivative;
               output2 = js_max (outputMin_b s) (js_min (outputMax_b s) output1);
               errors = errorHistory_b s @ [error];
               outputs = outputHistory_b s @ [output2];
               over = (length errors > maxHistoryLength_b s)
           in (s\<lparr>integral_b := integral2, previousError_b := error, lastTime_b := currentTime,
                  errorHistory_b := (if over then tl errors else errors),
                  outputHistory_b := (if over then tl outputs else outputs)\<rparr>,
               Result \<lparr>res_output = output2, res_error = error,
                       res_proportional = proportional, res_integral = integral_term,
                       res_derivative = derivative,
                       res_components = \<lparr>comp_p = proportional, comp_i = integral_term,
                                           comp_d = derivative\<rparr>\<rparr>))"

section \<open>The balancing robot\<close>

text \<open>
  The repository holds two variants of the class \<open>BalancingRobot\<close> with the same
  fields. Only the fields the physics reads or writes are kept; the drawing constants and
  the canvas context are left out. The source fields \<open>length\<close> and \<open>lastTime\<close> carry
  the suffix \<open>_robot\<close>. The later variant also keeps a reference to the controller; the
  operation that reaches through it takes and returns the controller.
\<close>

record point =
  pt_x :: jsnum
  pt_y :: jsnum
  pt_time :: int

record robot =
  mass :: jsnum
  length_robot :: jsnum
  gravity :: jsnum
  friction :: jsnum
  angle :: jsnum
  angularVelocity :: jsnum
  angularAcceleration :: jsnum
  position :: jsnum
  velocity :: jsnum
  baseX :: jsnum
  baseY :: jsnum
  torque :: jsnum
  disturbanceForce :: jsnum
  disturbanceDecay :: jsnum
  lastTime_robot :: int
  groundOffset :: jsnum
  groundSpeed :: jsnum
  trail :: "point list"
  maxTrailLength :: nat

definition BalancingRobot :: "jsnum \<Rightarrow> jsnum \<Rightarrow> int \<Rightarrow> robot" where
  \<comment> \<open>the constructor, given the canvas width and height and the clock reading\<close>
  "BalancingRobot canvas_width canvas_height now =
     \<lparr>mass = Fin 1.0, length_robot = Fin 0.5, gravity = Fin 9.81, friction = Fin 0.1,
      angle = Fin 0, angularVelocity = Fin 0, angularAcceleration = Fin 0,
      position = Fin 0, velocity = Fin 0,
      baseX = js_div canvas_width (Fin 2), baseY = js_sub canvas_height (Fin 100),
      torque = Fin 0, disturbanceForce = Fin 0, disturbanceDecay = Fin 0.95,
      lastTime_robot = now, groundOffset = Fin 0, groundSpeed = Fin 0,
      trail = [], maxTrailLength = 100\<rparr>"

definition applyDisturbance :: "robot \<Rightarrow> jsnum option \<Rightarrow> robot" where
  \<comment> \<open>an omitted force defaults to 5\<close>
  "applyDisturbance r force =
     r\<lparr>disturbanceForce := (case force of None \<Rightarrow> Fin 5 | Some f \<Rightarrow> f)\<rparr>"

definition setTorque :: "robot \<Rightarrow> jsnum \<Rightarrow> robot" where
  "setTorque r t = r\<lparr>torque := t\<rparr>"

definition getAngleDegrees :: "robot \<Rightarrow> jsnum" where
  "getAngleDegrees r = js_div (js_mul (angle r) (Fin 180)) MathPI"

definition limit_trail :: "nat \<Rightarrow> int \<Rightarrow> int \<Rightarrow> point list \<Rightarrow> point list" where
  \<comment> \<open>the end of both \<open>update\<close> methods: drop the oldest point when the trail is over
      length, then the points older than the timeout\<close>
  "limit_trail maxLen trailTimeout currentTime tr =
     filter (\<lambda>pt. currentTime - pt_time pt < trailTimeout)
       (if length tr > maxLen then tl tr else tr)"

subsection \<open>The later variant (the second \<open>BalancingRobot\<close> of part 001)\<close>

definition robot_reset :: "robot \<Rightarrow> pid \<Rightarrow> int \<Rightarrow> int \<Rightarrow> robot \<times> pid" where
  \<comment> \<open>\<open>now\<close> is the robot's clock reading, \<open>now_pid\<close> the one of the controller's reset\<close>
  "robot_reset r c now now_pid =
     (r\<lparr>angle := Fin 0, angularVelocity := Fin 0, angularAcceleration := Fin 0,
        position := Fin 0, velocity := Fin 0, torque := Fin 0, disturbanceForce := Fin 0,
        groundOffset := Fin 0, groundSpeed := Fin 0, trail := [], lastTime_robot := now\<rparr>,
      reset c now_pid)"

definition robot_deltaTime :: "robot \<Rightarrow> int \<Rightarrow> jsnum" where
  "robot_deltaTime r currentTime =
     js_min (js_div (Fin (of_int (currentTime - lastTime_robot r))) (Fin 1000)) (Fin 0.1)"

definition robot_update :: "robot \<Rightarrow> int \<Rightarrow> robot" where
  "robot_update r currentTime =
     (let deltaTime = robot_deltaTime r currentTime;
          r0 = r\<lparr>lastTime_robot := currentTime\<rparr>
      in if isNaN deltaTime \<or> js_le deltaTime (Fin 0) then r0
         else
           let g = gravity r; l = length_robot r; m = mass r; b = friction r;
               gravityTerm = js_mul (js_div g l) (js_sin (angle r));
               dampingTerm = js_mul (js_div b (js_mul (js_mul m l) l)) (angularVelocity r);
               controlTerm = js_div (torque r) (js_mul (js_mul m l) l);
               disturbanceTerm = js_div (disturbanceForce r) (js_mul (js_mul m l) l);
               acc = js_add (js_add (js_sub gravityTerm dampingTerm) controlTerm)
                       disturbanceTerm;
               angVel = js_add (angularVelocity r) (js_mul acc deltaTime);
               angle1 = js_add (angle r) (js_mul angVel deltaTime);
               targetSpeed = js_mul (js_sin angle1) (Fin 5);
               acceleration = js_mul (js_sub targetSpeed (velocity r)) (Fin 2.0);
               velocity1 = js_add (velocity r) (js_mul acceleration deltaTime);
               velocity2 = js_mul velocity1 (Fin 0.98);
               gSpeed = js_mul (js_neg velocity2) (Fin 20);
               gOffset = js_mod (js_add (groundOffset r) (js_mul gSpeed deltaTime)) (Fin 100);
               force = js_mul (disturbanceForce r) (disturbanceDecay r);
               angle2 = js_max (js_div (js_neg MathPI) (Fin 2))
                          (js_min (js_div MathPI (Fin 2)) angle1);
               trailX = js_add (baseX r) (js_mul (js_sin angle2) (Fin 50));
               trail1 = trail r
                  @ [\<lparr>pt_x = trailX, pt_y = js_add (baseY r) (Fin 20), pt_time = currentTime\<rparr>]
           in r0\<lparr>angularAcceleration := acc, angularVelocity := angVel, angle := angle2,
                 velocity := velocity2, groundSpeed := gSpeed, groundOffset := gOffset,
                 disturbanceForce := force,
                 trail := limit_trail (maxTrailLength r) 3000 currentTime trail1\<rparr>)"

subsection \<open>The earlier variant (part 000)\<close>

definition robot0_reset :: "robot \<Rightarrow> real \<Rightarrow> int \<Rightarrow> robot" where
  \<comment> \<open>\<open>u\<close> is the value \<open>Math.random()\<close> returns, a number in \<open>[0, 1)\<close>\<close>
  "robot0_reset r u now =
     r\<lparr>angle := js_sub (js_mul (Fin u) (Fin 0.2)) (Fin 0.1),
       angularVelocity := Fin 0, angularAcceleration := Fin 0,
       position := Fin 0, velocity := Fin 0, torque := Fin 0, disturbanceForce := Fin 0,
       groundOffset := Fin 0, groundSpeed := Fin 0, trail := [], lastTime_robot := now\<rparr>"

definition robot0_deltaTime :: "robot \<Rightarrow> int \<Rightarrow> jsnum" where
  "robot0_deltaTime r currentTime =
     js_min (js_div (Fin (of_int (currentTime - lastTime_robot r))) (Fin 1000)) (Fin 0.02)"

definition robot0_update :: "robot \<Rightarrow> int \<Rightarrow> robot" where
  "robot0_update r currentTime =
     (let deltaTime = robot0_deltaTime r currentTime;
          r0 = r\<lparr>lastTime_robot := currentTime\<rparr>
      in if js_le deltaTime (Fin 0) then r0
         else
           let ml2 = js_mul (js_mul (mass r) (length_robot r)) (length_robot r);
               gravityTerm = js_mul (js_div (gravity r) (length_robot r)) (js_sin (angle r));
               frictionTerm = js_mul (js_div (friction r) ml2) (angularVelocity r);
               controlTerm = js_div (torque r) ml2;
               disturbanceTerm = js_div (disturbanceForce r) ml2;
               acc = js_add (js_add (js_sub gravityTerm frictionTerm) controlTerm)
                       disturbanceTerm;
               angVel = js_add (angularVelocity r) (js_mul acc deltaTime);
               angle1 = js_add (angle r) (js_mul angVel deltaTime);
               horizontalAcceleration =
                 js_mul (js_mul (js_sin angle1) (gravity r)) (Fin 0.5);
               velocity1 = js_add (velocity r) (js_mul horizontalAcceleration deltaTime);
               velocity2 = js_mul velocity1 (Fin 0.98);
               position1 = js_add (position r) (js_mul velocity2 deltaTime);
               gSpeed = js_mul (js_neg velocity2) (Fin 0.3);
               gOffset = js_mod (js_add (groundOffset r)
                                   (js_mul (js_mul gSpeed deltaTime) (Fin 50))) (Fin 100);
               force = js_mul (disturbanceForce r) (disturbanceDecay r);
               angle2 = js_max (js_div (js_neg MathPI) (Fin 2))
                          (js_min (js_div MathPI (Fin 2)) angle1);
               trailX = js_add (baseX r) (js_mul position1 (Fin 10));
               trail1 = trail r @ [\<lparr>pt_x = trailX, pt_y = baseY r, pt_time = currentTime\<rparr>]
           in r0\<lparr>angularAcceleration := acc, angularVelocity := angVel, angle := angle2,
                 velocity := velocity2, position := position1,
                 groundSpeed := gSpeed, groundOffset := gOffset,
                 disturbanceForce := force,
                 trail := limit_trail (maxTrailLength r) 2000 currentTime trail1\<rparr>)"

section \<open>The simulation tick\<close>

text \<open>
  One pass of the loop that \<open>animate\<close> runs: the physics update, the controller on the
  measured angle in degrees, and the controller's output set as the torque. \<open>animate\<close>
  reaches the controller through its alias \<open>update\<close>; here it is \<open>calculate\<close> itself,
  with the setpoint and the optional timestep as inputs of the tick. Gain changes and
  disturbances requested since the last pass are applied first, and every clock reading
  is an input.
\<close>

record tick_input =
  new_gains :: "(jsnum \<times> jsnum \<times> jsnum) option"
  disturbance :: "jsnum option"
  setpoint_arg :: jsnum
  dt_arg :: "jsnum option"
  clock_robot :: int
  clock_pid :: int
  clock_stamp :: int

definition tick :: "robot \<times> pid \<Rightarrow> tick_input \<Rightarrow> robot \<times> pid" where
  "tick w inp =
     (let r0 = (case disturbance inp of None \<Rightarrow> fst w
                | Some f \<Rightarrow> applyDisturbance (fst w) (Some f));
          c0 = (case new_gains inp of None \<Rightarrow> snd w
                | Some (a, b, c) \<Rightarrow> setGains (snd w) a b c);
          r1 = robot_update r0 (clock_robot inp);
          res = calculate c0 (setpoint_arg inp) (getAngleDegrees r1) (dt_arg inp)
                  (clock_pid inp) (clock_stamp inp)
      in (setTorque r1 (snd res), fst res))"

fun trajectory :: "robot \<times> pid \<Rightarrow> tick_input list \<Rightarrow> (robot \<times> pid) list" where
  "trajectory w [] = []"
| "trajectory w (a # as) = tick w a # trajectory (tick w a) as"

section \<open>Binary64 arithmetic\<close>

text \<open>
  The numbers of the code are IEEE 754 binary64 values: an arithmetic operation returns
  the representable number nearest to the exact result, a tie going to the even
  significand, and overflows to an infinity when that rounding reaches \<open>2^1024\<close>.
  \<open>round64\<close> is this rounding on the reals. \<open>expo x\<close> is the exponent of the binade of
  \<open>x\<close> (not below \<open>-1022\<close>, where the subnormal numbers start), \<open>ulp x\<close> the spacing of
  the representable numbers there, \<open>rne\<close> rounds to the nearest integer, ties to even,
  and \<open>rnd\<close> rounds \<open>x\<close> to the nearest multiple of \<open>ulp x\<close>. A result that rounds to
  zero is \<open>+0\<close>.
\<close>

definition rne :: "real \<Rightarrow> int" where
  "rne q = (let f = \<lfloor>q\<rfloor>; d = q - of_int f
            in if d < 1 / 2 then f else if 1 / 2 < d then f + 1
               else if even f then f else f + 1)"

definition expo :: "real \<Rightarrow> int" where
  "expo x = max \<lfloor>log 2 \<bar>x\<bar>\<rfloor> (- 1022)"

definition ulp :: "real \<Rightarrow> real" where
  "ulp x = 2 powr (of_int (expo x) - 52)"

definition rnd :: "real \<Rightarrow> real" where
  "rnd x = of_int (rne (x / ulp x)) * ulp x"

definition round64 :: "real \<Rightarrow> jsnum" where
  "round64 x =
     (if x = 0 then Fin 0
      else if 2 ^ 1024 \<le> \<bar>rnd x\<bar> then (if 0 < x then PInf else NInf)
      else Fin (rnd x))"

text \<open>
  The operators \<open>+\<close>, \<open>-\<close>, \<open>*\<close> and \<open>/\<close> of the code return the exact result, rounded.
  The remainder \<open>%\<close>, the comparisons, \<open>Math.max\<close>, \<open>Math.min\<close> and \<open>Math.abs\<close> are
  exact on binary64 numbers, so \<open>js_mod\<close>, \<open>js_le\<close>, \<open>js_max\<close> and the others serve as
  they are. \<open>Math.sin\<close> is taken to return the correctly rounded sine. A decimal literal
  of the code denotes the representable number nearest to it, \<open>Math.PI\<close> the one nearest
  to \<open>\<pi>\<close>, and a clock reading is converted likewise. \<open>is_double\<close> holds of the values a
  variable of the code can hold.
\<close>

definition rounded :: "jsnum \<Rightarrow> jsnum" where
  "rounded r = (case r of Fin c \<Rightarrow> round64 c | _ \<Rightarrow> r)"

definition d_add :: "jsnum \<Rightarrow> jsnum \<Rightarrow> jsnum" where
  "d_add a b = rounded (js_add a b)"

definition d_sub :: "jsnum \<Rightarrow> jsnum \<Rightarrow> jsnum" where
  "d_sub a b = rounded (js_sub a b)"

definition d_mul :: "jsnum \<Rightarrow> jsnum \<Rightarrow> jsnum" where
  "d_mul a b = rounded (js_mul a b)"

definition d_div :: "jsnum \<Rightarrow> jsnum \<Rightarrow> jsnum" where
  "d_div a b = rounded (js_div a b)"

definition sin64 :: "jsnum \<Rightarrow> jsnum" where
  "sin64 a = rounded (js_sin a)"

definition MathPI64 :: jsnum where
  "MathPI64 = round64 pi"

definition num64 :: "int \<Rightarrow> jsnum" where
  "num64 i = round64 (of_int i)"

fun is_double :: "jsnum \<Rightarrow> bool" where
  "is_double (Fin a) = (round64 a = Fin a)"
| "is_double _ = True"

subsection \<open>The enhanced PID controller in binary64 arithmetic\<close>

text \<open>
  The constructor and \<open>calculate\<close> of pid-controller-enhanced.js once more, statement
  by statement as above, with the rounded operations and the rounded literals
  \<open>0.15\<close> and \<open>0.001\<close>.
\<close>

definition PIDController64 :: "jsnum \<Rightarrow> jsnum \<Rightarrow> jsnum \<Rightarrow> int \<Rightarrow> int \<Rightarrow> pid" where
  "PIDController64 kp0 ki0 kd0 now1 now2 =
     \<lparr>kp = kp0, ki = ki0, kd = kd0,
      setpoint = Fin 0, previousError = Fin 0, integral = Fin 0,
      lastTime = now1, lastOutput = Fin 0,
      errorHistory = [], outputHistory = [], maxHistoryLength = 1000,
      integralMax = Fin 50, integralMin = Fin (- 50),
      outputMax = Fin 100, outputMin = Fin (- 100),
      alpha = round64 0.15, filteredDerivative = Fin 0,
      maxRate = Fin 20, lastUpdateTime = now2\<rparr>"

definition effective_dt64 :: "pid \<Rightarrow> jsnum option \<Rightarrow> int \<Rightarrow> jsnum" where
  "effective_dt64 s deltaTime currentTime =
     (let dt = (case deltaTime of
                  None \<Rightarrow> d_div (d_sub (num64 currentTime) (num64 (lastTime s))) (Fin 1000)
                | Some dt0 \<Rightarrow> dt0)
      in if js_le dt (Fin 0) then round64 0.001 else dt)"

definition calculate64 :: "pid \<Rightarrow> jsnum \<Rightarrow> jsnum \<Rightarrow> jsnum option \<Rightarrow> int \<Rightarrow> int \<Rightarrow> pid \<times> jsnum" where
  "calculate64 s sp currentValue deltaTime0 currentTime stamp =
     (let deltaTime = effective_dt64 s deltaTime0 currentTime;
          error = d_sub sp currentValue;
          proportional = d_mul (kp s) error;
          integral1 = d_add (integral s) (d_mul error deltaTime);
          integral2 = js_max (integralMin s) (js_min (integralMax s) integral1);
          integral_term = d_mul (ki s) integral2;
          filtered = (if js_gt deltaTime (Fin 0)
                      then d_add (d_mul (alpha s)
                                    (d_div (d_sub error (previousError s)) deltaTime))
                                 (d_mul (d_sub (Fin 1) (alpha s)) (filteredDerivative s))
                      else filteredDerivative s);
          derivative = (if js_gt deltaTime (Fin 0) then d_mul (kd s) filtered else Fin 0);
          output1 = d_add (d_add proportional integral_term) derivative;
          maxChange = d_mul (maxRate s) deltaTime;
          output2 = js_max (d_sub (lastOutput s) maxChange)
                           (js_min (d_add (lastOutput s) maxChange) output1);
          output3 = js_max (outputMin s) (js_min (outputMax s) output2);
          s' = s\<lparr>setpoint := sp, integral := integral2, filteredDerivative := filtered,
                  previousError := error, lastTime := currentTime, lastOutput := output3\<rparr>
      in (storeHistory s' error output3
            \<lparr>comp_p = proportional, comp_i = integral_term, comp_d = derivative\<rparr> stamp,
          output3))"

subsection \<open>The balancing robot in binary64 arithmetic\<close>

text \<open>
  The constructor and the two \<open>update\<close> methods once more, with the rounded operations
  and literals.
\<close>

definition BalancingRobot64 :: "jsnum \<Rightarrow> jsnum \<Rightarrow> int \<Rightarrow> robot" where
  "BalancingRobot64 canvas_width canvas_height now =
     \<lparr>mass = Fin 1.0, length_robot = Fin 0.5, gravity = round64 9.81,
      friction = round64 0.1,
      angle = Fin 0, angularVelocity = Fin 0, angularAcceleration = Fin 0,
      position = Fin 0, velocity = Fin 0,
      baseX = d_div canvas_width (Fin 2), baseY = d_sub canvas_height (Fin 100),
      torque = Fin 0, disturbanceForce = Fin 0, disturbanceDecay = round64 0.95,
      lastTime_robot = now, groundOffset = Fin 0, groundSpeed = Fin 0,
      trail = [], maxTrailLength = 100\<rparr>"

definition robot_deltaTime64 :: "robot \<Rightarrow> int \<Rightarrow> jsnum" where
  "robot_deltaTime64 r currentTime =
     js_min (d_div (d_sub (num64 currentTime) (num64 (lastTime_robot r))) (Fin 1000))
       (round64 0.1)"

definition robot_update64 :: "robot \<Rightarrow> int \<Rightarrow> robot" where
  "robot_update64 r currentTime =
     (let deltaTime = robot_deltaTime64 r currentTime;
          r0 = r\<lparr>lastTime_robot := currentTime\<rparr>
      in if isNaN deltaTime \<or> js_le deltaTime (Fin 0) then r0
         else
           let g = gravity r; l = length_robot r; m = mass r; b = friction r;
               gravityTerm = d_mul (d_div g l) (sin64 (angle r));
               dampingTerm = d_mul (d_div b (d_mul (d_mul m l) l)) (angularVelocity r);
               controlTerm = d_div (torque r) (d_mul (d_mul m l) l);
               disturbanceTerm = d_div (disturbanceForce r) (d_mul (d_mul m l) l);
               acc = d_add (d_add (d_sub gravityTerm dampingTerm) controlTerm)
                       disturbanceTerm;
               angVel = d_add (angularVelocity r) (d_mul acc deltaTime);
               angle1 = d_add (angle r) (d_mul angVel deltaTime);
               targetSpeed = d_mul (sin64 angle1) (Fin 5);
               acceleration = d_mul (d_sub targetSpeed (velocity r)) (Fin 2.0);
               velocity1 = d_add (velocity r) (d_mul acceleration deltaTime);
               velocity2 = d_mul velocity1 (round64 0.98);
               gSpeed = d_mul (js_neg velocity2) (Fin 20);
               gOffset = js_mod (d_add (groundOffset r) (d_mul gSpeed deltaTime)) (Fin 100);
               force = d_mul (disturbanceForce r) (disturbanceDecay r);
               angle2 = js_max (d_div (js_neg MathPI64) (Fin 2))
                          (js_min (d_div MathPI64 (Fin 2)) angle1);
               trailX = d_add (baseX r) (d_mul (sin64 angle2) (Fin 50));
               trail1 = trail r
                  @ [\<lparr>pt_x = trailX, pt_y = d_add (baseY r) (Fin 20), pt_time = currentTime\<rparr>]
           in r0\<lparr>angularAcceleration := acc, angularVelocity := angVel, angle := angle2,
                 velocity := velocity2, groundSpeed := gSpeed, groundOffset := gOffset,
                 disturbanceForce := force,
                 trail := limit_trail (maxTrailLength r) 3000 currentTime trail1\<rparr>)"

definition robot0_deltaTime64 :: "robot \<Rightarrow> int \<Rightarrow> jsnum" where
  "robot0_deltaTime64 r currentTime =
     js_min (d_div (d_sub (num64 currentTime) (num64 (lastTime_robot r))) (Fin 1000))
       (round64 0.02)"

definition robot0_update64 :: "robot \<Rightarrow> int \<Rightarrow> robot" where
  "robot0_update64 r currentTime =
     (let deltaTime = robot0_deltaTime64 r currentTime;
          r0 = r\<lparr>lastTime_robot := currentTime\<rparr>
      in if js_le deltaTime (Fin 0) then r0
         else
           let ml2 = d_mul (d_mul (mass r) (length_robot r)) (length_robot r);
               gravityTerm = d_mul (d_div (gravity r) (length_robot r)) (sin64 (angle r));
               frictionTerm = d_mul (d_div (friction r) ml2) (angularVelocity r);
               controlTerm = d_div (torque r) ml2;
               disturbanceTerm = d_div (disturbanceForce r) ml2;
               acc = d_add (d_add (d_sub gravityTerm frictionTerm) controlTerm)
                       disturbanceTerm;
               angVel = d_add (angularVelocity r) (d_mul acc deltaTime);
               angle1 = d_add (angle r) (d_mul angVel deltaTime);
               horizontalAcceleration =
                 d_mul (d_mul (sin64 angle1) (gravity r)) (Fin 0.5);
               velocity1 = d_add (velocity r) (d_mul horizontalAcceleration deltaTime);
               velocity2 = d_mul velocity1 (round64 0.98);
               position1 = d_add (position r) (d_mul velocity2 deltaTime);
               gSpeed = d_mul (js_neg velocity2) (round64 0.3);
               gOffset = js_mod (d_add (groundOffset r)
                                   (d_mul (d_mul gSpeed deltaTime) (Fin 50))) (Fin 100);
               force = d_mul (disturbanceForce r) (disturbanceDecay r);
               angle2 = js_max (d_div (js_neg MathPI64) (Fin 2))
                          (js_min (d_div MathPI64 (Fin 2)) angle1);
               trailX = d_add (baseX r) (d_mul position1 (Fin 10));
               trail1 = trail r @ [\<lparr>pt_x = trailX, pt_y = baseY r, pt_time = currentTime\<rparr>]
           in r0\<lparr>angularAcceleration := acc, angularVelocity := angVel, angle := angle2,
                 velocity := velocity2, position := position1,
                 groundSpeed := gSpeed, groundOffset := gOffset,
                 disturbanceForce := force,
                 trail := limit_trail (maxTrailLength r) 2000 currentTime trail1\<rparr>)"

section \<open>Notions used in the statements\<close>

definition dt_finite :: "jsnum option \<Rightarrow> bool" where
  \<comment> \<open>an omitted timestep, or a finite one\<close>
  "dt_finite deltaTime = (case deltaTime of None \<Rightarrow> True | Some dt \<Rightarrow> is_fin dt)"

definition pid_finite :: "pid \<Rightarrow> bool" where
  \<comment> \<open>every numeric field of the controller holds a finite number\<close>
  "pid_finite s =
     (is_fin (kp s) \<and> is_fin (ki s) \<and> is_fin (kd s) \<and> is_fin (previousError s)
      \<and> is_fin (integral s) \<and> is_fin (lastOutput s)
      \<and> is_fin (integralMax s) \<and> is_fin (integralMin s)
      \<and> is_fin (outputMax s) \<and> is_fin (outputMin s)
      \<and> is_fin (alpha s) \<and> is_fin (filteredDerivative s) \<and> is_fin (maxRate s))"

definition config_ok :: "pid \<Rightarrow> bool" where
  \<comment> \<open>the limits are in order, as the constructor sets them\<close>
  "config_ok s =
     (js_le (outputMin s) (outputMax s) \<and> js_le (Fin 0) (alpha s) \<and> js_le (alpha s) (Fin 1)
      \<and> js_le (Fin 0) (maxRate s))"

definition robot_finite :: "robot \<Rightarrow> bool" where
  \<comment> \<open>the fields the angle depends on are finite, mass and length are not zero\<close>
  "robot_finite r =
     (is_fin (mass r) \<and> is_fin (length_robot r) \<and> is_fin (gravity r) \<and> is_fin (friction r)
      \<and> is_fin (angle r) \<and> is_fin (angularVelocity r) \<and> is_fin (torque r)
      \<and> is_fin (disturbanceForce r) \<and> mass r \<noteq> Fin 0 \<and> length_robot r \<noteq> Fin 0)"

definition raw_output64 :: "pid \<Rightarrow> jsnum \<Rightarrow> jsnum \<Rightarrow> jsnum option \<Rightarrow> int \<Rightarrow> jsnum" where
  \<comment> \<open>the sum \<open>proportional + integral + derivative\<close> of \<open>calculate\<close>, before the
      rate limit\<close>
  "raw_output64 s sp currentValue deltaTime0 currentTime =
     (let deltaTime = effective_dt64 s deltaTime0 currentTime;
          error = d_sub sp currentValue;
          proportional = d_mul (kp s) error;
          integral1 = d_add (integral s) (d_mul error deltaTime);
          integral2 = js_max (integralMin s) (js_min (integralMax s) integral1);
          integral_term = d_mul (ki s) integral2;
          filtered = (if js_gt deltaTime (Fin 0)
                      then d_add (d_mul (alpha s)
                                    (d_div (d_sub error (previousError s)) deltaTime))
                                 (d_mul (d_sub (Fin 1) (alpha s)) (filteredDerivative s))
                      else filteredDerivative s);
          derivative = (if js_gt deltaTime (Fin 0) then d_mul (kd s) filtered else Fin 0)
      in d_add (d_add proportional integral_term) derivative)"

definition stepped_angle64 :: "robot \<Rightarrow> jsnum \<Rightarrow> jsnum" where
  \<comment> \<open>the angle after the integration step of either \<open>update\<close>, before it is clamped\<close>
  "stepped_angle64 r deltaTime =
     d_add (angle r) (d_mul (d_add (angularVelocity r)
       (d_mul (d_add (d_add (d_sub
           (d_mul (d_div (gravity r) (length_robot r)) (sin64 (angle r)))
           (d_mul (d_div (friction r)
              (d_mul (d_mul (mass r) (length_robot r)) (length_robot r)))
              (angularVelocity r)))
           (d_div (torque r) (d_mul (d_mul (mass r) (length_robot r)) (length_robot r))))
           (d_div (disturbanceForce r)
              (d_mul (d_mul (mass r) (length_robot r)) (length_robot r))))
         deltaTime)) deltaTime)"

definition bounded_by :: "nat \<Rightarrow> jsnum \<Rightarrow> bool" where
  \<comment> \<open>a finite number of magnitude at most \<open>2^n\<close>\<close>
  "bounded_by n x = (case x of Fin a \<Rightarrow> \<bar>a\<bar> \<le> 2 ^ n | _ \<Rightarrow> False)"

definition pid_bounded :: "pid \<Rightarrow> bool" where
  \<comment> \<open>the gains, the state and the configuration the raw output depends on are at most
      \<open>2^100\<close> in magnitude\<close>
  "pid_bounded s =
     (bounded_by 100 (kp s) \<and> bounded_by 100 (ki s) \<and> bounded_by 100 (kd s)
      \<and> bounded_by 100 (previousError s) \<and> bounded_by 100 (integral s)
      \<and> bounded_by 100 (integralMax s) \<and> bounded_by 100 (integralMin s)
      \<and> bounded_by 100 (alpha s) \<and> bounded_by 100 (filteredDerivative s)
      \<and> bounded_by 100 (maxRate s))"

definition timestep_ok :: "pid \<Rightarrow> jsnum option \<Rightarrow> int \<Rightarrow> bool" where
  \<comment> \<open>a passed timestep that is at most zero (\<open>-Infinity\<close> included) or between \<open>2^-100\<close> and \<open>2^100\<close>; an omitted
      one with both clock readings within \<open>2^53\<close> of zero\<close>
  "timestep_ok s deltaTime currentTime =
     (case deltaTime of
        None \<Rightarrow> \<bar>currentTime\<bar> \<le> 2 ^ 53 \<and> \<bar>lastTime s\<bar> \<le> 2 ^ 53
      | Some (Fin h) \<Rightarrow> h \<le> 2 ^ 100 \<and> (h \<le> 0 \<or> 1 / 2 ^ 100 \<le> h)
      | Some NInf \<Rightarrow> True
      | _ \<Rightarrow> False)"

definition robot_bounded :: "robot \<Rightarrow> bool" where
  \<comment> \<open>mass and length as the constructor sets them, the other fields the angle depends on
      at most \<open>2^100\<close> in magnitude\<close>
  "robot_bounded r =
     (mass r = Fin 1 \<and> length_robot r = Fin (1 / 2)
      \<and> bounded_by 100 (gravity r) \<and> bounded_by 100 (friction r)
      \<and> bounded_by 100 (angle r) \<and> bounded_by 100 (angularVelocity r)
      \<and> bounded_by 100 (torque r) \<and> bounded_by 100 (disturbanceForce r))"


text \<open>Calls on a controller, and the states a sequence of calls passes through.\<close>

datatype pid_call =
    Calculate jsnum jsnum "jsnum option" int int
  | Update jsnum int int
  | StoreHistory jsnum jsnum components int
  | Reset int
  | SetGains jsnum jsnum jsnum
  | SetParameters jsnum jsnum jsnum

fun apply_call :: "pid \<Rightarrow> pid_call \<Rightarrow> pid" where
  "apply_call s (Calculate sp cv dt now stamp) = fst (calculate s sp cv dt now stamp)"
| "apply_call s (Update cv now stamp) = fst (update s cv now stamp)"
| "apply_call s (StoreHistory e out comps now) = storeHistory s e out comps now"
| "apply_call s (Reset now) = reset s now"
| "apply_call s (SetGains a b c) = setGains s a b c"
| "apply_call s (SetParameters a b c) = setParameters s a b c"

fun states_after :: "pid \<Rightarrow> pid_call list \<Rightarrow> pid list" where
  "states_after s [] = []"
| "states_after s (c # cs) = apply_call s c # states_after (apply_call s c) cs"

fun tuning_call :: "pid_call \<Rightarrow> bool" where
  \<comment> \<open>\<open>calculate\<close> with finite arguments, and gain changes\<close>
  "tuning_call (Calculate sp cv dt now stamp) = (is_fin sp \<and> is_fin cv \<and> dt_finite dt)"
| "tuning_call (SetGains a b c) = True"
| "tuning_call (SetParameters a b c) = True"
| "tuning_call _ = False"

definition integral_in_band :: "pid \<Rightarrow> bool" where
  "integral_in_band s =
     (js_le (integralMin s) (integral s) \<and> js_le (integral s) (integralMax s))"

definition history_ok :: "pid \<Rightarrow> bool" where
  "history_ok s =
     (length (errorHistory s) = length (outputHistory s)
      \<and> length (errorHistory s) \<le> maxHistoryLength s)"

definition integral_in_band_basic :: "pid_basic \<Rightarrow> bool" where
  "integral_in_band_basic s =
     (js_le (integralMin_b s) (integral_b s) \<and> js_le (integral_b s) (integralMax_b s))"

definition history_ok_basic :: "pid_basic \<Rightarrow> bool" where
  "history_ok_basic s =
     (length (errorHistory_b s) = length (outputHistory_b s)
      \<and> length (errorHistory_b s) \<le> maxHistoryLength_b s)"

text \<open>
  The specification's notion of a degenerate timestep: non-positive or not finite.
\<close>

definition degenerate :: "jsnum \<Rightarrow> bool" where
  "degenerate dt = (js_le dt (Fin 0) \<or> \<not> is_fin dt)"

text \<open>
  With a constant zero error the target of the output moves monotonically, so the output,
  which follows it at a bounded rate, changes direction at most once. \<open>crossings_left\<close>
  bounds the sign changes still possible, given whether the output has already met the
  target (for a falling target; for a rising one the output is negated), and
  \<open>zero_error_inv\<close> is the invariant of the tuning loop built on it.
\<close>

definition crossings_left :: "bool \<Rightarrow> real \<Rightarrow> nat" where
  "crossings_left locked out =
     (if locked then (if out < 0 then 0 else 1) else (if 0 < out then 1 else 2))"

definition zero_error_inv :: "bool \<Rightarrow> tune_state \<Rightarrow> bool" where
  "zero_error_inv falling st =
     (let s = ctrl st;
          out = val (lastOutput s);
          u = val (kd s) * ((1 - val (alpha s)) * val (filteredDerivative s));
          target = val (ki s) * val (integral s) + u
      in pid_finite s \<and> previousError s = Fin 0 \<and> lastOutput_local st = lastOutput s
         \<and> 0 \<le> val (alpha s) \<and> val (alpha s) \<le> 1 \<and> 0 \<le> val (maxRate s)
         \<and> max (val (integralMin s)) (min (val (integralMax s)) (val (integral s)))
             = val (integral s)
         \<and> val (outputMin s) \<le> out \<and> out \<le> val (outputMax s)
         \<and> (if falling then 0 \<le> u else u \<le> 0)
         \<and> length (peaks st)
             + crossings_left (if falling then target \<le> out else out \<le> target)
                 (if falling then out else - out) \<le> 2)"

text \<open>
  Two runs of the tick loop see the same timesteps when, tick by tick, the gain changes,
  disturbances and setpoints agree and so do the timesteps the robot and the controller
  derive. The core of a state forgets the clock stamps (\<open>lastTime\<close>, the timestamps of
  the history entries) and the render trail.
\<close>

fun same_timesteps ::
  "robot \<times> pid \<Rightarrow> tick_input list \<Rightarrow> robot \<times> pid \<Rightarrow> tick_input list \<Rightarrow> bool" where
  "same_timesteps w1 [] w2 [] = True"
| "same_timesteps w1 (a # as) w2 (b # bs) =
     (new_gains a = new_gains b \<and> disturbance a = disturbance b \<and> setpoint_arg a = setpoint_arg b
      \<and> robot_deltaTime (fst w1) (clock_robot a) = robot_deltaTime (fst w2) (clock_robot b)
      \<and> effective_dt (snd w1) (dt_arg a) (clock_pid a)
          = effective_dt (snd w2) (dt_arg b) (clock_pid b)
      \<and> same_timesteps (tick w1 a) as (tick w2 b) bs)"
| "same_timesteps _ _ _ _ = False"

definition robot_core :: "robot \<Rightarrow> robot" where
  "robot_core r = r\<lparr>lastTime_robot := 0, trail := []\<rparr>"

definition pid_core :: "pid \<Rightarrow> pid" where
  "pid_core c = c\<lparr>lastTime := 0, lastUpdateTime := 0,
                   outputHistory := map (\<lambda>e. e\<lparr>timestamp := 0\<rparr>) (outputHistory c)\<rparr>"

definition core :: "robot \<times> pid \<Rightarrow> robot \<times> pid" where
  "core w = (robot_core (fst w), pid_core (snd w))"

text \<open>Concrete states for the examples.\<close>

definition fresh_robot :: robot where
  "fresh_robot = BalancingRobot (Fin 800) (Fin 600) 0"

definition fresh_world :: "robot \<times> pid" where
  "fresh_world = (fresh_robot, createDefault 0 0)"

definition plain_tick :: "int \<Rightarrow> tick_input" where
  "plain_tick t = \<lparr>new_gains = None, disturbance = None, setpoint_arg = Fin 0,
                   dt_arg = Some (Fin 0.1), clock_robot = t, clock_pid = t, clock_stamp = t\<rparr>"

definition loaded_pid :: pid where
  \<comment> \<open>a controller in the middle of a run\<close>
  "loaded_pid = (createDefault 0 0)\<lparr>integral := Fin 10, previousError := Fin 2,
                                     lastOutput := Fin (- 5)\<rparr>"

definition full_pid :: pid where
  \<comment> \<open>a controller whose histories are at capacity\<close>
  "full_pid = (createDefault 0 0)
     \<lparr>errorHistory := replicate 1000 (Fin 0),
      outputHistory := replicate 1000
        \<lparr>output_value = Fin 0, timestamp = 0,
         components = \<lparr>comp_p = Fin 0, comp_i = Fin 0, comp_d = Fin 0\<rparr>\<rparr>\<rparr>"

text \<open>
  States for binary64 arithmetic: a controller with \<open>kp = 0\<close>, a controller whose last
  output is the number just below 1 (\<open>0.9999999999999999\<close>), a new robot on a canvas of
  800 by 600, and that robot with a torque of \<open>2^1023\<close> and a disturbance of \<open>-2^1023\<close>.
\<close>

definition overflow_pid :: pid where
  "overflow_pid = PIDController64 (Fin 0) (round64 0.1) (round64 0.8) 0 0"

definition tie_pid :: pid where
  "tie_pid = (PIDController64 (Fin 64) (Fin 0) (Fin 0) 0 0)\<lparr>lastOutput := Fin (1 - 1 / 2 ^ 53)\<rparr>"

definition fresh_robot64 :: robot where
  "fresh_robot64 = BalancingRobot64 (Fin 800) (Fin 600) 0"

definition pushed_robot64 :: robot where
  "pushed_robot64 =
     applyDisturbance (setTorque fresh_robot64 (Fin (2 ^ 1023))) (Some (Fin (- (2 ^ 1023))))"

chapter \<open>Properties\<close>

section \<open>Arithmetic on finite numbers\<close>

lemma is_fin_conv: "is_fin x \<longleftrightarrow> (\<exists>a. x = Fin a)"
  by (cases x) simp_all

lemma Fin_val: "is_fin x \<Longrightarrow> x = Fin (val x)"
  by (cases x) simp_all

lemma js_sub_Fin [simp]: "js_sub (Fin a) (Fin b) = Fin (a - b)"
  by (simp add: js_sub_def)

lemma js_le_Fin [simp]: "js_le (Fin a) (Fin b) \<longleftrightarrow> a \<le> b"
  by (auto simp: js_le_def)

lemma js_gt_Fin [simp]: "js_gt (Fin a) (Fin b) \<longleftrightarrow> b < a"
  by (simp add: js_gt_def)

lemma js_ge_Fin [simp]: "js_ge (Fin a) (Fin b) \<longleftrightarrow> b \<le> a"
  by (simp add: js_ge_def)

lemma js_max_Fin [simp]: "js_max (Fin a) (Fin b) = Fin (max a b)"
  by (simp add: js_max_def max_def)

lemma js_min_Fin [simp]: "js_min (Fin a) (Fin b) = Fin (min a b)"
  by (auto simp: js_min_def min_def)

lemma js_add_Fin: "js_add (Fin a) (Fin b) = Fin (a + b)"
  by simp

lemma js_mul_Fin: "js_mul (Fin a) (Fin b) = Fin (a * b)"
  by simp

lemma js_div_Fin_pos: "0 < b \<Longrightarrow> js_div (Fin a) (Fin b) = Fin (a / b)"
  by simp

lemmas js_Fin_arith = js_sub_Fin js_add_Fin js_mul_Fin js_max_Fin js_min_Fin
  js_gt_Fin js_div_Fin_pos

lemma js_le_trans: "js_le a b \<Longrightarrow> js_le b c \<Longrightarrow> js_le a c"
  by (cases a; cases b; cases c) (auto simp: js_le_def)

lemma js_le_not_NaN: "js_le a b \<Longrightarrow> a \<noteq> NaN \<and> b \<noteq> NaN"
  by (cases a; cases b) (auto simp: js_le_def)

lemma js_add_not_NaN: "a \<noteq> NaN \<Longrightarrow> js_add a (Fin b) \<noteq> NaN"
  by (cases a) simp_all

lemma clamp_in_band:
  assumes "js_le lo hi" "x \<noteq> NaN"
  shows "js_le lo (js_max lo (js_min hi x)) \<and> js_le (js_max lo (js_min hi x)) hi"
  using assms by (cases lo; cases hi; cases x) (auto simp: js_le_def js_max_def js_min_def)

lemma js_max_NaN_iff: "js_max a b = NaN \<longleftrightarrow> a = NaN \<or> b = NaN"
  by (auto simp: js_max_def)

lemma js_min_NaN_iff: "js_min a b = NaN \<longleftrightarrow> a = NaN \<or> b = NaN"
  by (auto simp: js_min_def)

lemma clamp_cases:
  assumes "js_le lo hi" "x \<noteq> NaN"
  shows "(js_le x lo \<and> js_max lo (js_min hi x) = lo)
       \<or> (js_le hi x \<and> js_max lo (js_min hi x) = hi)
       \<or> (js_le lo x \<and> js_le x hi \<and> js_max lo (js_min hi x) = x)"
  using assms by (cases lo; cases hi; cases x) (auto simp: js_le_def js_max_def js_min_def)

lemma clamp_NaN_or_in_band:
  assumes "js_le lo hi"
  shows "(js_max lo (js_min hi x) = NaN \<longleftrightarrow> x = NaN)
       \<and> (js_max lo (js_min hi x) = NaN
          \<or> js_le lo (js_max lo (js_min hi x)) \<and> js_le (js_max lo (js_min hi x)) hi)"
proof -
  from assms have "lo \<noteq> NaN" "hi \<noteq> NaN" by (simp_all add: js_le_not_NaN)
  then have "js_max lo (js_min hi x) = NaN \<longleftrightarrow> x = NaN"
    by (simp add: js_max_NaN_iff js_min_NaN_iff)
  with clamp_in_band [OF assms, of x] show ?thesis by blast
qed

lemma slew_then_clamp:
  assumes w: "js_le A l" "js_le l B" and lim: "js_le omin l" "js_le l omax"
    and raw: "raw \<noteq> NaN"
  defines "out \<equiv> js_max omin (js_min omax (js_max A (js_min B raw)))"
  shows "js_le omin out \<and> js_le out omax \<and> js_le A out \<and> js_le out B"
proof -
  define o2 where "o2 = js_max A (js_min B raw)"
  have AB: "js_le A B" using w by (rule js_le_trans)
  have mm: "js_le omin omax" using lim by (rule js_le_trans)
  from clamp_in_band [OF AB raw] have o2: "js_le A o2" "js_le o2 B"
    by (simp_all add: o2_def)
  then have n2: "o2 \<noteq> NaN" by (simp add: js_le_not_NaN)
  have out: "out = js_max omin (js_min omax o2)" by (simp add: out_def o2_def)
  from clamp_in_band [OF mm n2] have b: "js_le omin out" "js_le out omax"
    by (simp_all add: out)
  from clamp_cases [OF mm n2] have "js_le A out \<and> js_le out B"
    unfolding out [symmetric]
  proof (elim disjE conjE)
    assume "js_le o2 omin" "out = omin"
    with o2 w lim show ?thesis by (metis js_le_trans)
  next
    assume "js_le omax o2" "out = omax"
    with o2 w lim show ?thesis by (metis js_le_trans)
  next
    assume "out = o2"
    with o2 show ?thesis by simp
  qed
  with b show ?thesis by simp
qed

section \<open>\<open>calculate\<close> on finite states\<close>

lemma effective_dt_None:
  "effective_dt s None now =
     Fin (if now \<le> lastTime s then 0.001 else real_of_int (now - lastTime s) / 1000)"
  by (simp add: effective_dt_def Let_def)

lemma effective_dt_Some_Fin:
  "effective_dt s (Some (Fin a)) now = Fin (if a \<le> 0 then 0.001 else a)"
  by (simp add: effective_dt_def Let_def)

lemma effective_dt_finite:
  assumes "dt_finite deltaTime"
  shows "\<exists>h. effective_dt s deltaTime now = Fin h \<and> 0 < h"
proof (cases deltaTime)
  case None
  then show ?thesis by (simp add: effective_dt_None)
next
  case (Some dt)
  with assms obtain a where "dt = Fin a" by (auto simp: dt_finite_def is_fin_conv)
  with Some show ?thesis by (simp add: effective_dt_Some_Fin)
qed

lemma storeHistory_keeps:
  "kp (storeHistory s e out c t) = kp s"
  "ki (storeHistory s e out c t) = ki s"
  "kd (storeHistory s e out c t) = kd s"
  "setpoint (storeHistory s e out c t) = setpoint s"
  "previousError (storeHistory s e out c t) = previousError s"
  "integral (storeHistory s e out c t) = integral s"
  "lastTime (storeHistory s e out c t) = lastTime s"
  "lastOutput (storeHistory s e out c t) = lastOutput s"
  "maxHistoryLength (storeHistory s e out c t) = maxHistoryLength s"
  "integralMax (storeHistory s e out c t) = integralMax s"
  "integralMin (storeHistory s e out c t) = integralMin s"
  "outputMax (storeHistory s e out c t) = outputMax s"
  "outputMin (storeHistory s e out c t) = outputMin s"
  "alpha (storeHistory s e out c t) = alpha s"
  "filteredDerivative (storeHistory s e out c t) = filteredDerivative s"
  "maxRate (storeHistory s e out c t) = maxRate s"
  "lastUpdateTime (storeHistory s e out c t) = lastUpdateTime s"
  by (simp_all add: storeHistory_def Let_def)

lemma calculate_Fin:
  assumes "kp s = Fin Kp" "ki s = Fin Ki" "kd s = Fin Kd" "previousError s = Fin pe"
    "integral s = Fin I" "lastOutput s = Fin lo" "integralMax s = Fin imax"
    "integralMin s = Fin imin" "outputMax s = Fin omax" "outputMin s = Fin omin"
    "alpha s = Fin al" "filteredDerivative s = Fin fd" "maxRate s = Fin mr"
    "effective_dt s dt now = Fin h" "0 < h"
    and "e = sp - cv"
    and "I' = max imin (min imax (I + e * h))"
    and "fd' = al * ((e - pe) / h) + (1 - al) * fd"
    and "out = max omin (min omax (max (lo - mr * h)
                 (min (lo + mr * h) (Kp * e + Ki * I' + Kd * fd'))))"
  shows "calculate s (Fin sp) (Fin cv) dt now stamp =
      (storeHistory
         (s\<lparr>setpoint := Fin sp, integral := Fin I', filteredDerivative := Fin fd',
            previousError := Fin e, lastTime := now, lastOutput := Fin out\<rparr>)
         (Fin e) (Fin out)
         \<lparr>comp_p = Fin (Kp * e), comp_i = Fin (Ki * I'), comp_d = Fin (Kd * fd')\<rparr> stamp,
       Fin out)"
  by (simp only: calculate_def Let_def assms js_Fin_arith if_True)

section \<open>Rounding to binary64\<close>

text \<open>Rounding to the nearest integer is monotone and odd.\<close>

lemma rne_cases: "rne q = \<lfloor>q\<rfloor> \<or> rne q = \<lfloor>q\<rfloor> + 1"
  by (simp add: rne_def Let_def)

lemma rne_of_int [simp]: "rne (of_int n) = n"
  by (simp add: rne_def Let_def)

lemma rne_mono: "q \<le> q' \<Longrightarrow> rne q \<le> rne q'"
proof -
  assume le: "q \<le> q'"
  then have f: "\<lfloor>q\<rfloor> \<le> \<lfloor>q'\<rfloor>" by (rule floor_mono)
  show ?thesis
  proof (cases "\<lfloor>q\<rfloor> = \<lfloor>q'\<rfloor>")
    case True
    with le show ?thesis by (auto simp: rne_def Let_def)
  next
    case False
    with f have "\<lfloor>q\<rfloor> + 1 \<le> \<lfloor>q'\<rfloor>" by simp
    moreover have "rne q \<le> \<lfloor>q\<rfloor> + 1" using rne_cases [of q] by auto
    moreover have "\<lfloor>q'\<rfloor> \<le> rne q'" using rne_cases [of q'] by auto
    ultimately show ?thesis by linarith
  qed
qed

lemma rne_minus: "rne (- q) = - rne q"
proof (cases "q \<in> \<int>")
  case True
  then obtain n where "q = of_int n" by (auto elim: Ints_cases)
  then have "- q = of_int (- n)" by simp
  then show ?thesis using \<open>q = of_int n\<close> by (simp only: rne_of_int)
next
  case False
  then have "q \<noteq> of_int \<lfloor>q\<rfloor>" by (metis Ints_of_int)
  then have fl: "\<lfloor>- q\<rfloor> = - \<lfloor>q\<rfloor> - 1"
    by (simp add: ceiling_altdef floor_minus)
  show ?thesis
    unfolding rne_def Let_def fl by (auto simp: field_simps)
qed

lemma rne_nonneg: "0 \<le> q \<Longrightarrow> 0 \<le> rne q"
  using rne_mono [of 0 q] rne_of_int [of 0] by simp

text \<open>
  Rounding to binary64 is monotone and odd: below a binade's upper end a number rounds at
  most to that end, and from its lower end on at least to that end.
\<close>

lemma ulp_pos: "0 < ulp x"
  by (simp add: ulp_def)

lemma expo_minus [simp]: "expo (- x) = expo x"
  by (simp add: expo_def)

lemma ulp_minus [simp]: "ulp (- x) = ulp x"
  by (simp add: ulp_def)

lemma rnd_minus: "rnd (- x) = - rnd x"
  by (simp add: rnd_def rne_minus)

lemma rnd_zero [simp]: "rnd 0 = 0"
  using rne_of_int [of 0] by (simp add: rnd_def)

lemma expo_mono: "0 < x \<Longrightarrow> x \<le> y \<Longrightarrow> expo x \<le> expo y"
  unfolding expo_def by (intro max.mono floor_mono) simp_all

lemma expo_upper:
  assumes "0 < x"
  shows "x < 2 powr (of_int (expo x) + 1)"
proof -
  have "log 2 x < of_int \<lfloor>log 2 x\<rfloor> + 1" by linarith
  also have "\<dots> \<le> of_int (expo x) + 1" using assms by (simp add: expo_def)
  finally have "2 powr log 2 x < 2 powr (of_int (expo x) + 1)"
    by simp
  with assms show ?thesis by simp
qed

lemma expo_lower:
  assumes "0 < x" "- 1022 < expo x"
  shows "2 powr of_int (expo x) \<le> x"
proof -
  from assms(2) have "expo x = \<lfloor>log 2 x\<rfloor>"
    using assms(1) by (simp add: expo_def max_def split: if_splits)
  then have "of_int (expo x) \<le> log 2 x" by simp
  then have "2 powr of_int (expo x) \<le> 2 powr log 2 x" by simp
  with assms show ?thesis by simp
qed

lemma ulp_times: "of_int (2 ^ 53) * ulp x = 2 powr (of_int (expo x) + 1)"
proof -
  have e: "real_of_int (expo x) + 1 = 53 + (of_int (expo x) - 52)" by simp
  have "2 powr (real_of_int (expo x) + 1) = 2 powr 53 * ulp x"
    unfolding ulp_def by (subst e) (rule powr_add)
  moreover have "(2::real) powr 53 = real_of_int (2 ^ 53)" by simp
  ultimately show ?thesis by (simp only:)
qed

lemma ulp_times': "of_int (2 ^ 52) * ulp x = 2 powr of_int (expo x)"
proof -
  have e: "real_of_int (expo x) = 52 + (of_int (expo x) - 52)" by simp
  have "2 powr real_of_int (expo x) = 2 powr 52 * ulp x"
    unfolding ulp_def by (subst e) (rule powr_add)
  moreover have "(2::real) powr 52 = real_of_int (2 ^ 52)" by simp
  ultimately show ?thesis by (simp only:)
qed

lemma rnd_upper:
  assumes "0 < x"
  shows "rnd x \<le> 2 powr (of_int (expo x) + 1)"
proof -
  from expo_upper [OF assms] have "x \<le> of_int (2 ^ 53) * ulp x"
    by (simp only: ulp_times)
  then have "x / ulp x \<le> of_int (2 ^ 53)"
    using ulp_pos [of x] by (simp add: pos_divide_le_eq)
  from rne_mono [OF this] have "rne (x / ulp x) \<le> 2 ^ 53"
    by (simp only: rne_of_int)
  then have "real_of_int (rne (x / ulp x)) \<le> of_int (2 ^ 53)"
    by (simp only: of_int_le_iff)
  then have "rnd x \<le> of_int (2 ^ 53) * ulp x"
    unfolding rnd_def using ulp_pos [of x] by (simp only: mult_le_cancel_right_pos)
  then show ?thesis by (simp only: ulp_times)
qed

lemma rnd_lower:
  assumes "2 powr of_int (expo x) \<le> x"
  shows "2 powr of_int (expo x) \<le> rnd x"
proof -
  from assms have "of_int (2 ^ 52) * ulp x \<le> x"
    by (simp only: ulp_times')
  then have "of_int (2 ^ 52) \<le> x / ulp x"
    using ulp_pos [of x] by (simp add: pos_le_divide_eq)
  from rne_mono [OF this] have "2 ^ 52 \<le> rne (x / ulp x)"
    by (simp only: rne_of_int)
  then have "real_of_int (2 ^ 52) \<le> of_int (rne (x / ulp x))"
    by (simp only: of_int_le_iff)
  then have "of_int (2 ^ 52) * ulp x \<le> rnd x"
    unfolding rnd_def using ulp_pos [of x] by (simp only: mult_le_cancel_right_pos)
  then show ?thesis by (simp only: ulp_times')
qed

lemma rnd_mono_pos:
  assumes "0 < x" "x \<le> y"
  shows "rnd x \<le> rnd y"
proof (cases "expo x = expo y")
  case True
  then have u: "ulp x = ulp y" by (simp add: ulp_def)
  from assms(2) have "x / ulp y \<le> y / ulp y"
    using ulp_pos [of y] by (simp add: divide_right_mono)
  from rne_mono [OF this] show ?thesis
    unfolding rnd_def u using ulp_pos [of y] by (simp add: mult_right_mono)
next
  case False
  with expo_mono [OF assms] have lt: "expo x + 1 \<le> expo y" by simp
  from assms have y: "0 < y" by simp
  have "- 1022 \<le> expo x" by (simp add: expo_def)
  with lt have "- 1022 < expo y" by simp
  from rnd_lower [OF expo_lower [OF y this]] have "2 powr of_int (expo y) \<le> rnd y" .
  moreover from lt have "(2::real) powr (of_int (expo x) + 1) \<le> 2 powr of_int (expo y)"
    by (metis of_int_1 of_int_add of_int_le_iff one_le_numeral powr_mono)
  ultimately show ?thesis using rnd_upper [OF assms(1)] by linarith
qed

lemma rnd_nonneg: "0 \<le> x \<Longrightarrow> 0 \<le> rnd x"
  unfolding rnd_def using ulp_pos [of x]
  by (intro mult_nonneg_nonneg) (simp_all add: rne_nonneg)

lemma rnd_mono: "x \<le> y \<Longrightarrow> rnd x \<le> rnd y"
proof -
  assume le: "x \<le> y"
  consider "0 < x" | "x \<le> 0" "0 \<le> y" | "y < 0" by linarith
  then show ?thesis
  proof cases
    case 1
    then show ?thesis using le by (rule rnd_mono_pos)
  next
    case 2
    from 2(1) have "0 \<le> rnd (- x)" by (intro rnd_nonneg) simp
    then have "rnd x \<le> 0" by (simp add: rnd_minus)
    with rnd_nonneg [OF 2(2)] show ?thesis by linarith
  next
    case 3
    with le have "0 < - y" "- y \<le> - x" by simp_all
    from rnd_mono_pos [OF this] show ?thesis by (simp add: rnd_minus)
  qed
qed

lemma round64_not_NaN [simp]: "round64 x \<noteq> NaN"
  by (simp add: round64_def)

lemma round64_zero [simp]: "round64 0 = Fin 0"
  by (simp add: round64_def)

lemma round64_mono:
  assumes "x \<le> y"
  shows "js_le (round64 x) (round64 y)"
proof -
  define T :: real where "T = 2 ^ 1024"
  have T: "0 < T" by (simp add: T_def)
  note m = rnd_mono [OF assms]
  have r: "round64 z = (if z = 0 then Fin 0 else if T \<le> \<bar>rnd z\<bar>
       then (if 0 < z then PInf else NInf) else Fin (rnd z))" for z
    by (simp only: round64_def T_def)
  have p: "0 \<le> z \<longrightarrow> 0 \<le> rnd z" for z
    by (simp add: rnd_nonneg)
  have n: "z \<le> 0 \<longrightarrow> rnd z \<le> 0" for z
    using rnd_nonneg [of "- z"] by (simp add: rnd_minus)
  consider "x = 0" | "y = 0" | "0 < x" "0 < y" | "x < 0" "0 < y" | "x < 0" "y < 0"
    using assms by linarith
  then show ?thesis
  proof cases
    case 1
    with assms p [of y] T show ?thesis by (auto simp: r js_le_def)
  next
    case 2
    with assms n [of x] T show ?thesis by (auto simp: r js_le_def)
  next
    case 3
    with m p [of x] p [of y] T show ?thesis by (auto simp: r js_le_def)
  next
    case 4
    with m n [of x] p [of y] T show ?thesis by (auto simp: r js_le_def)
  next
    case 5
    with m n [of x] n [of y] T show ?thesis by (auto simp: r js_le_def)
  qed
qed

lemma round64_minus: "round64 (- x) = js_neg (round64 x)"
proof -
  define T :: real where "T = 2 ^ 1024"
  have r: "round64 z = (if z = 0 then Fin 0 else if T \<le> \<bar>rnd z\<bar>
       then (if 0 < z then PInf else NInf) else Fin (rnd z))" for z
    by (simp only: round64_def T_def)
  show ?thesis by (simp add: r rnd_minus)
qed

lemma round64_nonneg: "0 \<le> x \<Longrightarrow> js_le (Fin 0) (round64 x)"
  using round64_mono [of 0 x] by simp

lemma round64_nonpos: "x \<le> 0 \<Longrightarrow> js_le (round64 x) (Fin 0)"
  using round64_mono [of x 0] by simp

text \<open>
  Evaluation: the exponent of a number between two powers of two, overflow from
  \<open>2^1024\<close> on, the powers of two as fixed points, and the rounding of a number whose
  binade is known.
\<close>

lemma expoI:
  assumes "2 powr of_int e \<le> \<bar>x\<bar>" "\<bar>x\<bar> < 2 powr (of_int e + 1)" "- 1022 \<le> e"
  shows "expo x = e"
proof -
  have "0 < (2::real) powr of_int e" by simp
  with assms(1) have pos: "0 < \<bar>x\<bar>" by linarith
  from assms(1) pos have "of_int e \<le> log 2 \<bar>x\<bar>" by (simp add: le_log_iff)
  moreover from assms(2) pos have "log 2 \<bar>x\<bar> < of_int e + 1" by (simp add: log_less_iff)
  ultimately have "\<lfloor>log 2 \<bar>x\<bar>\<rfloor> = e" by linarith
  with assms(3) show ?thesis by (simp add: expo_def)
qed

lemma rnd_exact:
  assumes "x / ulp x = of_int n"
  shows "rnd x = x"
proof -
  have "rnd x = of_int n * ulp x" by (simp add: rnd_def assms)
  also have "\<dots> = x" using ulp_pos [of x] assms by (simp add: field_simps)
  finally show ?thesis .
qed

lemma round64_overflow:
  assumes "2 ^ 1024 \<le> x"
  shows "round64 x = PInf"
proof -
  have p: "(2::real) powr 1024 = 2 ^ 1024" by simp
  from assms have pos: "0 < x" by (simp add: less_le_trans [OF zero_less_power])
  from assms pos have "1024 \<le> log 2 x" by (simp add: le_log_iff)
  then have "1024 \<le> \<lfloor>log 2 x\<rfloor>" by linarith
  with pos have e: "1024 \<le> expo x" by (simp add: expo_def)
  then have "- 1022 < expo x" by simp
  from rnd_lower [OF expo_lower [OF pos this]] have "2 powr of_int (expo x) \<le> rnd x" .
  moreover from e have "(2::real) powr 1024 \<le> 2 powr of_int (expo x)"
    by (intro powr_mono) simp_all
  ultimately have "2 ^ 1024 \<le> rnd x" by (simp only: p)
  then have "2 ^ 1024 \<le> \<bar>rnd x\<bar>" by linarith
  with pos show ?thesis by (simp add: round64_def)
qed

lemma round64_pow2:
  assumes "- 1022 \<le> k" "k \<le> 1023"
  shows "round64 (2 powr of_int k) = Fin (2 powr of_int k)"
proof -
  define x :: real where "x = 2 powr of_int k"
  have pos: "0 < x" by (simp add: x_def)
  have e: "expo x = k"
    by (rule expoI) (use assms in \<open>simp_all add: x_def\<close>)
  have "of_int (2 ^ 52) * ulp x = 2 powr of_int k"
    by (simp only: ulp_times' e)
  then have "of_int (2 ^ 52) * ulp x = x"
    by (simp only: x_def)
  then have "x / ulp x = of_int (2 ^ 52)"
    using ulp_pos [of x] by (simp add: field_simps)
  then have r: "rnd x = x" by (rule rnd_exact)
  from assms(2) have "x \<le> 2 powr 1023" unfolding x_def by (intro powr_mono) simp_all
  also have "\<dots> < 2 ^ 1024" by simp
  finally have "\<bar>x\<bar> < 2 ^ 1024" using pos by simp
  with pos show ?thesis unfolding x_def [symmetric] by (simp add: round64_def r)
qed

lemma round64_one [simp]: "round64 1 = Fin 1"
  using round64_pow2 [of 0] by simp

lemma round64_bound:
  fixes n :: nat
  assumes "\<bar>x\<bar> \<le> 2 ^ n" "n \<le> 1023"
  shows "\<exists>y. round64 x = Fin y \<and> \<bar>y\<bar> \<le> 2 ^ n"
proof -
  define M :: real where "M = 2 ^ n"
  have p: "(2::real) powr of_int (int n) = M" by (simp add: M_def powr_realpow)
  from round64_pow2 [of "int n"] assms(2) have hi: "round64 M = Fin M"
    by (simp only: p)
  then have lo: "round64 (- M) = Fin (- M)"
    by (simp add: round64_minus)
  from assms have "- M \<le> x" "x \<le> M" unfolding M_def by linarith+
  from round64_mono [OF this(1)] round64_mono [OF this(2)]
  have "\<exists>y. round64 x = Fin y \<and> \<bar>y\<bar> \<le> M" unfolding hi lo
    by (cases "round64 x") (auto simp: js_le_def)
  then show ?thesis by (simp only: M_def)
qed

lemma round64_finite:
  assumes "\<bar>x\<bar> \<le> 2 ^ 1023"
  shows "\<exists>y. round64 x = Fin y \<and> \<bar>y\<bar> \<le> 2 ^ 1023"
proof -
  define M :: real where "M = 2 ^ 1023"
  have p: "(2::real) powr of_int 1023 = M" by (simp add: M_def)
  from round64_pow2 [of 1023] have hi: "round64 M = Fin M"
    by (simp only: p)
  then have lo: "round64 (- M) = Fin (- M)"
    by (simp add: round64_minus)
  from assms have "- M \<le> x" "x \<le> M" unfolding M_def by linarith+
  from round64_mono [OF this(1)] round64_mono [OF this(2)]
  have "\<exists>y. round64 x = Fin y \<and> \<bar>y\<bar> \<le> M" unfolding hi lo
    by (cases "round64 x") (auto simp: js_le_def)
  then show ?thesis by (simp only: M_def)
qed

lemma round64_small:
  assumes "\<bar>x\<bar> \<le> 1"
  shows "is_fin (round64 x)"
proof -
  have "(1::real) \<le> 2 ^ 1023" by simp
  with assms have "\<bar>x\<bar> \<le> 2 ^ 1023" by linarith
  from round64_finite [OF this] show ?thesis by (auto simp: is_fin_conv)
qed

lemma round64_unit:
  assumes "0 \<le> x" "x \<le> 1"
  shows "\<exists>a. round64 x = Fin a \<and> 0 \<le> a \<and> a \<le> 1"
  using round64_mono [OF assms(1)] round64_mono [OF assms(2)]
  by (cases "round64 x") (auto simp: js_le_def)

lemma round64_pow2_nat:
  fixes n :: nat
  assumes "n \<le> 1022"
  shows "round64 (1 / 2 ^ n) = Fin (1 / 2 ^ n)"
proof -
  have "(2::real) powr of_int (- int n) = 1 / 2 ^ n"
    by (simp add: powr_minus powr_realpow divide_inverse)
  with round64_pow2 [of "- int n"] assms show ?thesis by simp
qed

lemma round64_lower:
  fixes n :: nat
  assumes "1 / 2 ^ n \<le> x" "n \<le> 1022"
  shows "\<exists>y. (round64 x = Fin y \<and> 1 / 2 ^ n \<le> y) \<or> round64 x = PInf"
  using round64_mono [OF assms(1)] round64_pow2_nat [OF assms(2)]
  by (cases "round64 x") (auto simp: js_le_def)

lemma round64_of_int:
  assumes "\<bar>i\<bar> \<le> 2 ^ 53"
  shows "round64 (of_int i) = Fin (of_int i)"
proof (cases "i = 0 \<or> \<bar>i\<bar> = 2 ^ 53")
  case True
  then consider "i = 0" | "i = 2 ^ 53" | "i = - (2 ^ 53)" by (auto simp: abs_if split: if_splits)
  then show ?thesis
  proof cases
    case 1
    then show ?thesis by simp
  next
    case 2
    have "(2::real) powr of_int 53 = of_int (2 ^ 53)" by simp
    with round64_pow2 [of 53] show ?thesis by (simp only: 2)
  next
    case 3
    have "(2::real) powr of_int 53 = of_int (2 ^ 53)" by simp
    with round64_pow2 [of 53] have "round64 (of_int (2 ^ 53)) = Fin (of_int (2 ^ 53))"
      by (simp only:)
    then have "round64 (- of_int (2 ^ 53)) = Fin (- of_int (2 ^ 53))"
      by (simp only: round64_minus js_neg.simps)
    then show ?thesis by (simp only: 3 of_int_minus)
  qed
next
  case False
  with assms have nz: "i \<noteq> 0" and lt: "\<bar>i\<bar> < 2 ^ 53" by auto
  define x :: real where "x = of_int i"
  from nz have "(1::int) \<le> \<bar>i\<bar>" by simp
  then have "real_of_int 1 \<le> real_of_int \<bar>i\<bar>" by (simp only: of_int_le_iff)
  moreover from lt have "real_of_int \<bar>i\<bar> < real_of_int (2 ^ 53)"
    by (simp only: of_int_less_iff)
  ultimately have ax: "1 \<le> \<bar>x\<bar>" "\<bar>x\<bar> < 2 ^ 53"
    by (simp_all add: x_def)
  then have "0 \<le> log 2 \<bar>x\<bar>" "log 2 \<bar>x\<bar> < 53"
    by (simp_all add: log_less_iff powr_numeral)
  then have fl: "0 \<le> \<lfloor>log 2 \<bar>x\<bar>\<rfloor>" "\<lfloor>log 2 \<bar>x\<bar>\<rfloor> \<le> 52" by linarith+
  then have e: "0 \<le> expo x" "expo x \<le> 52" by (simp_all add: expo_def)
  define k where "k = nat (52 - expo x)"
  have "real_of_int (expo x) - 52 = - real k" using e by (simp add: k_def)
  then have u: "ulp x = 1 / 2 ^ k"
    by (simp add: ulp_def powr_minus powr_realpow divide_inverse)
  have "x / ulp x = x * 2 ^ k" by (simp add: u)
  then have "x / ulp x = of_int (i * 2 ^ k)" by (simp add: x_def)
  then have r: "rnd x = x" by (rule rnd_exact)
  have "(2::real) ^ 53 < 2 ^ 1024" by simp
  with ax(2) have "\<bar>x\<bar> < 2 ^ 1024" by linarith
  then show ?thesis
    unfolding x_def [symmetric] by (simp add: round64_def r)
qed

lemma round64_eval:
  assumes "2 powr of_int e \<le> \<bar>x\<bar>" "\<bar>x\<bar> < 2 powr (of_int e + 1)" "- 1022 \<le> e" "e \<le> 1022"
  shows "round64 x =
     Fin (of_int (rne (x / 2 powr (of_int e - 52))) * 2 powr (of_int e - 52))"
proof -
  have e: "expo x = e" using assms(1-3) by (rule expoI)
  have u: "ulp x = 2 powr (of_int e - 52)" by (simp add: ulp_def e)
  have "0 < (2::real) powr of_int e" by simp
  with assms(1) have nz: "x \<noteq> 0" by auto
  have b: "\<bar>rnd x\<bar> \<le> 2 powr (of_int e + 1)"
  proof (cases "0 < x")
    case True
    from rnd_upper [OF True] rnd_nonneg [of x] True show ?thesis by (simp add: e)
  next
    case False
    with nz have n: "0 < - x" by simp
    from rnd_upper [OF n] rnd_nonneg [of "- x"] n show ?thesis
      by (simp add: e rnd_minus)
  qed
  from assms(4) have "(2::real) powr (of_int e + 1) \<le> 2 powr 1023"
    by (intro powr_mono) simp_all
  also have "\<dots> < 2 ^ 1024" by simp
  finally have "\<bar>rnd x\<bar> < 2 ^ 1024" using b by linarith
  with nz show ?thesis
    by (simp add: round64_def) (simp add: rnd_def u)
qed

lemma round64_eval_neg:
  fixes n :: nat
  assumes "1 / 2 ^ n \<le> \<bar>x\<bar>" "\<bar>x\<bar> < 2 / 2 ^ n" "n \<le> 1022"
  shows "round64 x = Fin (of_int (rne (x * 2 ^ (n + 52))) / 2 ^ (n + 52))"
proof -
  have p: "(2::real) powr (- real m) = 1 / 2 ^ m" for m :: nat
    by (simp add: powr_minus powr_realpow divide_inverse)
  have a: "(2::real) powr of_int (- int n) = 1 / 2 ^ n"
    using p [of n] by simp
  have "(2::real) powr (of_int (- int n) + 1) = 2 powr of_int (- int n) * 2 powr 1"
    by (rule powr_add)
  then have b: "(2::real) powr (of_int (- int n) + 1) = 2 / 2 ^ n"
    by (simp only: a) simp
  have c: "(2::real) powr (of_int (- int n) - 52) = 1 / 2 ^ (n + 52)"
    using p [of "n + 52"] by (simp add: algebra_simps)
  have h: "2 powr of_int (- int n) \<le> \<bar>x\<bar>" "\<bar>x\<bar> < 2 powr (of_int (- int n) + 1)"
    using assms(1,2) by (simp_all only: a b)
  have k: "- 1022 \<le> - int n" "- int n \<le> 1022" using assms(3) by simp_all
  have "round64 x = Fin (of_int (rne (x / 2 powr (of_int (- int n) - 52)))
      * 2 powr (of_int (- int n) - 52))"
    using h k by (rule round64_eval)
  then show ?thesis by (simp only: c) simp
qed

lemma round64_eval_pos:
  fixes n :: nat
  assumes "2 ^ n \<le> \<bar>x\<bar>" "\<bar>x\<bar> < 2 * 2 ^ n" "n \<le> 52"
  shows "round64 x = Fin (of_int (rne (x * 2 ^ (52 - n))) / 2 ^ (52 - n))"
proof -
  have p: "(2::real) powr (- real m) = 1 / 2 ^ m" for m :: nat
    by (simp add: powr_minus powr_realpow divide_inverse)
  have a: "(2::real) powr of_int (int n) = 2 ^ n"
    by (simp add: powr_realpow)
  have "(2::real) powr (of_int (int n) + 1) = 2 powr of_int (int n) * 2 powr 1"
    by (rule powr_add)
  then have b: "(2::real) powr (of_int (int n) + 1) = 2 * 2 ^ n"
    by (simp only: a) simp
  have "real_of_int (int n) - 52 = - real (52 - n)" using assms(3) by simp
  then have c: "(2::real) powr (of_int (int n) - 52) = 1 / 2 ^ (52 - n)"
    using p [of "52 - n"] by (simp only:)
  have h: "2 powr of_int (int n) \<le> \<bar>x\<bar>" "\<bar>x\<bar> < 2 powr (of_int (int n) + 1)"
    using assms(1,2) by (simp_all only: a b)
  have k: "- 1022 \<le> int n" "int n \<le> 1022" using assms(3) by simp_all
  have "round64 x = Fin (of_int (rne (x / 2 powr (of_int (int n) - 52)))
      * 2 powr (of_int (int n) - 52))"
    using h k by (rule round64_eval)
  then show ?thesis by (simp only: c) simp
qed

lemma round64_pos_unit:
  assumes "1 / 1024 \<le> x" "x \<le> 1"
  shows "\<exists>y. round64 x = Fin y \<and> 0 < y \<and> y \<le> 1"
proof -
  have "round64 (1 / 1024) = Fin (1 / 1024)"
    by (subst round64_eval_neg [of 10]) (simp_all add: rne_def)
  with round64_mono [OF assms(1)] round64_mono [OF assms(2)] show ?thesis
    by (cases "round64 x") (auto simp: js_le_def)
qed

lemma round64_64: "round64 64 = Fin 64"
  by (subst round64_eval_pos [of 6]) (simp_all add: rne_def)

lemma round64_64th: "round64 (1 / 64) = Fin (1 / 64)"
  by (subst round64_eval_neg [of 6]) (simp_all add: rne_def)

lemma round64_5_16: "round64 (5 / 16) = Fin (5 / 16)"
  by (subst round64_eval_neg [of 2]) (simp_all add: rne_def)

lemma round64_tie: "round64 (1 - 1 / 2 ^ 53 + 5 / 16) = Fin (21 / 16)"
  by (subst round64_eval_pos [of 0]) (simp_all add: rne_def)

lemma round64_window_low: "round64 (1 - 1 / 2 ^ 53 - 5 / 16) = Fin (11 / 16 - 1 / 2 ^ 53)"
  by (subst round64_eval_neg [of 1]) (simp_all add: rne_def)

lemma round64_below_one: "round64 (1 - 1 / 2 ^ 53) = Fin (1 - 1 / 2 ^ 53)"
  by (subst round64_eval_neg [of 1]) (simp_all add: rne_def)

lemma round64_step: "round64 (21 / 16 - (1 - 1 / 2 ^ 53)) = Fin (5 / 16 + 1 / 2 ^ 53)"
  by (subst round64_eval_neg [of 2]) (simp_all add: rne_def)

text \<open>The rounded operations.\<close>

lemma rounded_simps [simp]:
  "rounded (Fin c) = round64 c" "rounded PInf = PInf" "rounded NInf = NInf"
  "rounded NaN = NaN"
  by (simp_all add: rounded_def)

lemma rounded_NaN_iff [simp]: "rounded r = NaN \<longleftrightarrow> r = NaN"
  by (cases r) simp_all

lemma d_add_Fin: "d_add (Fin a) (Fin b) = round64 (a + b)"
  by (simp add: d_add_def)

lemma d_sub_Fin: "d_sub (Fin a) (Fin b) = round64 (a - b)"
  by (simp add: d_sub_def)

lemma d_mul_Fin: "d_mul (Fin a) (Fin b) = round64 (a * b)"
  by (simp add: d_mul_def)

lemma d_div_Fin: "b \<noteq> 0 \<Longrightarrow> d_div (Fin a) (Fin b) = round64 (a / b)"
  by (simp add: d_div_def)

lemma d_add_NaN_left [simp]: "d_add NaN b = NaN"
  by (simp add: d_add_def)

lemma d_add_NaN_right [simp]: "d_add a NaN = NaN"
  by (cases a) (simp_all add: d_add_def)

lemma d_mul_NaN_left [simp]: "d_mul NaN b = NaN"
  by (simp add: d_mul_def)

lemma d_mul_NaN_right [simp]: "d_mul a NaN = NaN"
  by (cases a) (simp_all add: d_mul_def)

lemma d_sub_Fin_NaN_iff: "d_sub (Fin l) mc = NaN \<longleftrightarrow> mc = NaN"
  by (cases mc) (simp_all add: d_sub_def js_sub_def)

lemma d_add_Fin_NaN_iff: "d_add (Fin l) mc = NaN \<longleftrightarrow> mc = NaN"
  by (cases mc) (simp_all add: d_add_def)

lemma d_mul_nonneg:
  assumes "js_le (Fin 0) a" "js_le (Fin 0) b"
  shows "d_mul a b = NaN \<or> js_le (Fin 0) (d_mul a b)"
proof (cases "\<exists>x y. a = Fin x \<and> b = Fin y")
  case True
  then obtain x y where xy: "a = Fin x" "b = Fin y" by blast
  with assms have "0 \<le> x * y" by simp
  from round64_nonneg [OF this] show ?thesis by (simp add: xy d_mul_Fin)
next
  case False
  with assms show ?thesis
    by (cases a; cases b) (auto simp: d_mul_def js_le_def)
qed

lemma d_sub_window:
  assumes "round64 l = Fin l" "js_le (Fin 0) mc"
  shows "js_le (d_sub (Fin l) mc) (Fin l)"
proof (cases mc)
  case (Fin m)
  with assms(2) have "l - m \<le> l" by simp
  from round64_mono [OF this] show ?thesis by (simp add: Fin d_sub_Fin assms(1))
qed (use assms in \<open>simp_all add: d_sub_def js_sub_def js_le_def\<close>)

lemma d_add_window:
  assumes "round64 l = Fin l" "js_le (Fin 0) mc"
  shows "js_le (Fin l) (d_add (Fin l) mc)"
proof (cases mc)
  case (Fin m)
  with assms(2) have "l \<le> l + m" by simp
  from round64_mono [OF this] show ?thesis by (simp add: Fin d_add_Fin assms(1))
qed (use assms in \<open>simp_all add: d_add_def js_le_def\<close>)

lemma opposite_infinities: "d_add (d_add x PInf) NInf = NaN"
  by (cases x) (simp_all add: d_add_def)

lemma quarter: "d_mul (d_mul (Fin 1) (Fin (1 / 2))) (Fin (1 / 2)) = Fin (1 / 4)"
proof -
  have "round64 (1 / 2) = Fin (1 / 2)"
    by (subst round64_eval_neg [of 1]) (simp_all add: rne_def)
  moreover have "round64 (1 / 4) = Fin (1 / 4)"
    by (subst round64_eval_neg [of 2]) (simp_all add: rne_def)
  ultimately show ?thesis by (simp add: d_mul_Fin)
qed

lemma num64_0: "num64 0 = Fin 0"
  by (simp add: num64_def)

lemma num64_16: "num64 16 = Fin 16"
  unfolding num64_def by (subst round64_eval_pos [of 4]) (simp_all add: rne_def)

text \<open>Magnitudes: operations on numbers bounded by powers of two do not overflow.\<close>

lemma bounded_by_conv: "bounded_by n x \<longleftrightarrow> (\<exists>a. x = Fin a \<and> \<bar>a\<bar> \<le> 2 ^ n)"
  by (cases x) (simp_all add: bounded_by_def)

lemma bounded_by_Fin [simp]: "bounded_by n (Fin a) \<longleftrightarrow> \<bar>a\<bar> \<le> 2 ^ n"
  by (simp add: bounded_by_def)

lemma bounded_by_not_NaN: "bounded_by n x \<Longrightarrow> x \<noteq> NaN"
  by (auto simp: bounded_by_conv)

lemma bounded_by_mono:
  assumes "bounded_by m x" "m \<le> n"
  shows "bounded_by n x"
proof -
  from assms(1) obtain a where a: "x = Fin a" "\<bar>a\<bar> \<le> 2 ^ m" by (auto simp: bounded_by_conv)
  from assms(2) have "(2::real) ^ m \<le> 2 ^ n" by (simp add: power_increasing)
  with a(2) have "\<bar>a\<bar> \<le> 2 ^ n" by linarith
  with a(1) show ?thesis by simp
qed

lemma bounded_by_round64:
  assumes "\<bar>x\<bar> \<le> 2 ^ n" "n \<le> 1023"
  shows "bounded_by n (round64 x)"
  using round64_bound [OF assms] by (auto simp: bounded_by_conv)

lemma bounded_by_add:
  assumes "bounded_by n a" "bounded_by n b" "n < 1023"
  shows "bounded_by (Suc n) (d_add a b)"
proof -
  from assms(1,2) obtain x y where xy: "a = Fin x" "\<bar>x\<bar> \<le> 2 ^ n" "b = Fin y" "\<bar>y\<bar> \<le> 2 ^ n"
    by (auto simp: bounded_by_conv)
  then have "\<bar>x + y\<bar> \<le> 2 ^ Suc n" by simp
  from bounded_by_round64 [OF this] assms(3) show ?thesis by (simp add: xy d_add_Fin)
qed

lemma bounded_by_sub:
  assumes "bounded_by n a" "bounded_by n b" "n < 1023"
  shows "bounded_by (Suc n) (d_sub a b)"
proof -
  from assms(1,2) obtain x y where xy: "a = Fin x" "\<bar>x\<bar> \<le> 2 ^ n" "b = Fin y" "\<bar>y\<bar> \<le> 2 ^ n"
    by (auto simp: bounded_by_conv)
  then have "\<bar>x - y\<bar> \<le> 2 ^ Suc n" by simp
  from bounded_by_round64 [OF this] assms(3) show ?thesis by (simp add: xy d_sub_Fin)
qed

lemma bounded_by_mul:
  assumes "bounded_by m a" "bounded_by n b" "m + n \<le> 1023"
  shows "bounded_by (m + n) (d_mul a b)"
proof -
  from assms(1,2) obtain x y where xy: "a = Fin x" "\<bar>x\<bar> \<le> 2 ^ m" "b = Fin y" "\<bar>y\<bar> \<le> 2 ^ n"
    by (auto simp: bounded_by_conv)
  then have "\<bar>x\<bar> * \<bar>y\<bar> \<le> 2 ^ m * 2 ^ n" by (intro mult_mono) simp_all
  then have "\<bar>x * y\<bar> \<le> 2 ^ (m + n)" by (simp add: abs_mult power_add)
  from bounded_by_round64 [OF this assms(3)] show ?thesis by (simp add: xy d_mul_Fin)
qed

lemma bounded_by_div:
  assumes "bounded_by m a" "1 / 2 ^ n \<le> \<bar>y\<bar>" "m + n \<le> 1023"
  shows "bounded_by (m + n) (d_div a (Fin y))"
proof -
  from assms(1) obtain x where x: "a = Fin x" "\<bar>x\<bar> \<le> 2 ^ m"
    by (auto simp: bounded_by_conv)
  have p: "0 < (1::real) / 2 ^ n" by simp
  with assms(2) have y0: "0 < \<bar>y\<bar>" by linarith
  then have y: "0 < \<bar>y\<bar>" "y \<noteq> 0" by auto
  from assms(2) have "1 / \<bar>y\<bar> \<le> 2 ^ n"
    using y(1) by (simp add: field_simps)
  with x(2) have "\<bar>x\<bar> * (1 / \<bar>y\<bar>) \<le> 2 ^ m * 2 ^ n"
    by (intro mult_mono) simp_all
  then have "\<bar>x / y\<bar> \<le> 2 ^ (m + n)" by (simp add: power_add)
  from bounded_by_round64 [OF this assms(3)] show ?thesis by (simp add: x y d_div_Fin)
qed

lemma bounded_by_max:
  assumes "bounded_by n a" "bounded_by n b"
  shows "bounded_by n (js_max a b)"
  using assms by (auto simp: bounded_by_conv)

lemma bounded_by_min:
  assumes "bounded_by n a" "bounded_by n b"
  shows "bounded_by n (js_min a b)"
  using assms by (auto simp: bounded_by_conv)

lemma bounded_by_sin: "bounded_by 0 (sin64 (Fin a))"
proof -
  have "\<bar>sin a\<bar> \<le> 2 ^ 0" by simp
  from bounded_by_round64 [OF this] show ?thesis by (simp add: sin64_def)
qed

section \<open>Output limits of \<open>calculate\<close>\<close>

lemma effective_dt64_sign:
  "effective_dt64 s dt now = NaN \<or> js_le (Fin 0) (effective_dt64 s dt now)"
proof -
  have a: "js_le (Fin 0) (round64 0.001)" by (rule round64_nonneg) simp
  have b: "\<not> js_le d (Fin 0) \<Longrightarrow> d = NaN \<or> js_le (Fin 0) d" for d
    by (cases d) (auto simp: js_le_def)
  show ?thesis
    using a b by (auto simp: effective_dt64_def Let_def)
qed

lemma calculate64_output:
  "snd (calculate64 s sp cv dt now stamp) =
     js_max (outputMin s) (js_min (outputMax s)
       (js_max (d_sub (lastOutput s) (d_mul (maxRate s) (effective_dt64 s dt now)))
          (js_min (d_add (lastOutput s) (d_mul (maxRate s) (effective_dt64 s dt now)))
             (raw_output64 s sp cv dt now))))"
  by (simp add: calculate64_def raw_output64_def Let_def)

lemma calculate64_lastOutput:
  "lastOutput (fst (calculate64 s sp cv dt now stamp)) = snd (calculate64 s sp cv dt now stamp)"
  by (simp add: calculate64_def Let_def storeHistory_keeps)

lemma calculate64_band:
  fixes s :: pid and sp cv :: jsnum and dt :: "jsnum option" and now stamp :: int
  assumes last: "is_fin (lastOutput s)" "is_double (lastOutput s)"
      "js_le (outputMin s) (lastOutput s)" "js_le (lastOutput s) (outputMax s)"
    and rate: "js_le (Fin 0) (maxRate s)"
  defines "out \<equiv> snd (calculate64 s sp cv dt now stamp)"
    and "maxChange \<equiv> d_mul (maxRate s) (effective_dt64 s dt now)"
  shows "out = NaN \<longleftrightarrow> raw_output64 s sp cv dt now = NaN \<or> maxChange = NaN"
    and "out \<noteq> NaN \<Longrightarrow>
           js_le (outputMin s) out \<and> js_le out (outputMax s)
         \<and> js_le (d_sub (lastOutput s) maxChange) out
         \<and> js_le out (d_add (lastOutput s) maxChange)"
proof -
  from last(1,2) obtain l where l: "lastOutput s = Fin l" "round64 l = Fin l"
    by (cases "lastOutput s") simp_all
  define raw where "raw = raw_output64 s sp cv dt now"
  have out: "out = js_max (outputMin s) (js_min (outputMax s)
       (js_max (d_sub (Fin l) maxChange) (js_min (d_add (Fin l) maxChange) raw)))"
    unfolding out_def maxChange_def raw_def calculate64_output l ..
  from last(3,4) have lim: "outputMin s \<noteq> NaN" "outputMax s \<noteq> NaN"
    by (simp_all add: js_le_not_NaN)
  have nan: "out = NaN \<longleftrightarrow> raw = NaN \<or> maxChange = NaN"
    unfolding out
    by (auto simp: js_max_NaN_iff js_min_NaN_iff lim d_sub_Fin_NaN_iff d_add_Fin_NaN_iff)
  then show "out = NaN \<longleftrightarrow> raw_output64 s sp cv dt now = NaN \<or> maxChange = NaN"
    by (simp only: raw_def)
  assume "out \<noteq> NaN"
  with nan have n: "raw \<noteq> NaN" "maxChange \<noteq> NaN" by simp_all
  from effective_dt64_sign [of s dt now] n(2)
  have "js_le (Fin 0) (effective_dt64 s dt now)"
    by (auto simp: maxChange_def)
  from d_mul_nonneg [OF rate this] n(2) have mc: "js_le (Fin 0) maxChange"
    by (simp add: maxChange_def)
  from slew_then_clamp [OF d_sub_window [OF l(2) mc] d_add_window [OF l(2) mc]
      last(3,4) [unfolded l] n(1)]
  show "js_le (outputMin s) out \<and> js_le out (outputMax s)
         \<and> js_le (d_sub (lastOutput s) maxChange) out
         \<and> js_le out (d_add (lastOutput s) maxChange)"
    unfolding out l .
qed

lemma clock_timestep:
  fixes now prev :: int
  assumes "\<bar>now\<bar> \<le> 2 ^ 53" "\<bar>prev\<bar> \<le> 2 ^ 53"
  defines "dt \<equiv> d_div (d_sub (num64 now) (num64 prev)) (Fin 1000)"
  shows "js_le dt (Fin 0) \<or> (\<exists>h. dt = Fin h \<and> 1 / 2 ^ 100 \<le> h \<and> h \<le> 2 ^ 100)"
proof -
  define d :: real where "d = of_int now - of_int prev"
  from assms(1,2) have "real_of_int \<bar>now\<bar> \<le> real_of_int (2 ^ 53)"
    "real_of_int \<bar>prev\<bar> \<le> real_of_int (2 ^ 53)"
    by (simp_all only: of_int_le_iff)
  then have "\<bar>d\<bar> \<le> 2 ^ 54" by (simp add: d_def)
  from round64_bound [OF this] obtain c where c: "round64 d = Fin c" "\<bar>c\<bar> \<le> 2 ^ 54"
    by auto
  have "d_sub (num64 now) (num64 prev) = Fin c"
    unfolding num64_def round64_of_int [OF assms(1)] round64_of_int [OF assms(2)]
      d_sub_Fin by (rule c(1) [unfolded d_def])
  then have dt: "dt = round64 (c / 1000)"
    by (simp add: dt_def d_div_Fin)
  show ?thesis
  proof (cases "now \<le> prev")
    case True
    then have "d \<le> 0" by (simp add: d_def)
    from round64_nonpos [OF this] have "c \<le> 0" by (simp add: c(1))
    then have "c / 1000 \<le> 0" by simp
    from round64_nonpos [OF this] show ?thesis by (simp add: dt)
  next
    case False
    then have "1 \<le> now - prev" by simp
    then have "real_of_int 1 \<le> real_of_int (now - prev)" by (simp only: of_int_le_iff)
    then have "1 \<le> d" by (simp add: d_def)
    from round64_mono [OF this] have c1: "1 \<le> c" by (simp add: c(1))
    then have lo: "1 / 2 ^ 10 \<le> c / 1000" by simp
    from c1 c(2) have "\<bar>c / 1000\<bar> \<le> 2 ^ 54" by simp
    from round64_bound [OF this] obtain y where y: "round64 (c / 1000) = Fin y" "\<bar>y\<bar> \<le> 2 ^ 54"
      by auto
    from round64_lower [OF lo] y(1) have "1 / 2 ^ 10 \<le> y" by auto
    moreover have "(1::real) / 2 ^ 100 \<le> 1 / 2 ^ 10" by (simp add: field_simps)
    moreover have "(2::real) ^ 54 \<le> 2 ^ 100" by simp
    ultimately have "1 / 2 ^ 100 \<le> y" "y \<le> 2 ^ 100" using y(2) by linarith+
    with y(1) show ?thesis by (simp add: dt)
  qed
qed

lemma effective_dt64_bounded:
  assumes "timestep_ok s dt now"
  shows "\<exists>h. effective_dt64 s dt now = Fin h \<and> 1 / 2 ^ 100 \<le> h \<and> h \<le> 2 ^ 100"
proof -
  have "(1::real) / 2 ^ 10 \<le> 0.001" by simp
  from round64_lower [OF this] round64_unit [of "0.001"]
  obtain e where e: "round64 0.001 = Fin e" "1 / 2 ^ 10 \<le> e" "e \<le> 1"
    by auto
  have "(1::real) / 2 ^ 100 \<le> 1 / 2 ^ 10" by (simp add: field_simps)
  with e have e': "1 / 2 ^ 100 \<le> e" "e \<le> 2 ^ 100" by simp_all
  from assms consider h where "dt = Some (Fin h)" "h \<le> 0"
    | h where "dt = Some (Fin h)" "1 / 2 ^ 100 \<le> h" "h \<le> 2 ^ 100" | "dt = Some NInf"
    | "dt = None" "\<bar>now\<bar> \<le> 2 ^ 53" "\<bar>lastTime s\<bar> \<le> 2 ^ 53"
    by (auto simp: timestep_ok_def split: option.splits jsnum.splits)
  then show ?thesis
  proof cases
    case 1
    with e e' show ?thesis by (simp add: effective_dt64_def)
  next
    case 2
    have "0 < (1::real) / 2 ^ 100" by simp
    with 2(2) have "0 < h" by linarith
    with 2 show ?thesis by (simp add: effective_dt64_def)
  next
    case 3
    with e e' show ?thesis by (simp add: effective_dt64_def js_le_def)
  next
    case 4
    from clock_timestep [OF 4(2,3)] show ?thesis
    proof
      assume "js_le (d_div (d_sub (num64 now) (num64 (lastTime s))) (Fin 1000)) (Fin 0)"
      with e e' show ?thesis by (simp add: effective_dt64_def 4(1))
    next
      assume "\<exists>h. d_div (d_sub (num64 now) (num64 (lastTime s))) (Fin 1000) = Fin h
          \<and> 1 / 2 ^ 100 \<le> h \<and> h \<le> 2 ^ 100"
      then obtain h where h: "d_div (d_sub (num64 now) (num64 (lastTime s))) (Fin 1000) = Fin h"
        "1 / 2 ^ 100 \<le> h" "h \<le> 2 ^ 100" by blast
      have "0 < (1::real) / 2 ^ 100" by simp
      with h(2) have "0 < h" by linarith
      with h show ?thesis by (simp add: effective_dt64_def 4(1))
    qed
  qed
qed

lemma raw_output64_bounded:
  assumes s: "pid_bounded s" and a: "bounded_by 100 sp" "bounded_by 100 cv"
    and t: "timestep_ok s dt now"
  shows "bounded_by 405 (raw_output64 s sp cv dt now)"
    and "bounded_by 200 (d_mul (maxRate s) (effective_dt64 s dt now))"
proof -
  from s have b: "bounded_by 100 (kp s)" "bounded_by 100 (ki s)" "bounded_by 100 (kd s)"
    "bounded_by 100 (previousError s)" "bounded_by 100 (integral s)"
    "bounded_by 100 (integralMax s)" "bounded_by 100 (integralMin s)"
    "bounded_by 100 (alpha s)" "bounded_by 100 (filteredDerivative s)"
    "bounded_by 100 (maxRate s)"
    by (simp_all add: pid_bounded_def)
  from effective_dt64_bounded [OF t] obtain h where
    h: "effective_dt64 s dt now = Fin h" "1 / 2 ^ 100 \<le> h" "h \<le> 2 ^ 100" by blast
  have "0 < (1::real) / 2 ^ 100" by simp
  with h(2) have pos: "0 < h" by linarith
  with h(2,3) have hb: "bounded_by 100 (Fin h)" "1 / 2 ^ 100 \<le> \<bar>h\<bar>" by simp_all
  define e where "e = d_sub sp cv"
  have e: "bounded_by 101 e"
    unfolding e_def using bounded_by_sub [OF a] by simp
  have P: "bounded_by 201 (d_mul (kp s) e)"
    using bounded_by_mul [OF b(1) e] by simp
  have "bounded_by 201 (d_mul e (Fin h))"
    using bounded_by_mul [OF e hb(1)] by simp
  moreover have "bounded_by 201 (integral s)"
    using b(5) by (rule bounded_by_mono) simp
  ultimately have i1: "bounded_by 202 (d_add (integral s) (d_mul e (Fin h)))"
    using bounded_by_add [of 201] by simp
  define I where "I = js_max (integralMin s) (js_min (integralMax s)
      (d_add (integral s) (d_mul e (Fin h))))"
  have I: "bounded_by 202 I"
    unfolding I_def
    by (intro bounded_by_max bounded_by_min i1 bounded_by_mono [OF b(6)]
        bounded_by_mono [OF b(7)]) simp_all
  have It: "bounded_by 302 (d_mul (ki s) I)"
    using bounded_by_mul [OF b(2) I] by simp
  have "bounded_by 101 (previousError s)"
    using b(4) by (rule bounded_by_mono) simp
  with e have "bounded_by 102 (d_sub e (previousError s))"
    using bounded_by_sub [of 101] by simp
  from bounded_by_div [OF this hb(2)]
  have "bounded_by 202 (d_div (d_sub e (previousError s)) (Fin h))" by simp
  from bounded_by_mul [OF b(8) this]
  have f1: "bounded_by 302 (d_mul (alpha s) (d_div (d_sub e (previousError s)) (Fin h)))"
    by simp
  have "bounded_by 100 (Fin 1)" by simp
  from bounded_by_sub [OF this b(8)] have "bounded_by 101 (d_sub (Fin 1) (alpha s))" by simp
  from bounded_by_mul [OF this b(9)]
  have "bounded_by 201 (d_mul (d_sub (Fin 1) (alpha s)) (filteredDerivative s))" by simp
  then have "bounded_by 302 (d_mul (d_sub (Fin 1) (alpha s)) (filteredDerivative s))"
    by (rule bounded_by_mono) simp
  with f1 have "bounded_by 303 (d_add (d_mul (alpha s) (d_div (d_sub e (previousError s)) (Fin h)))
      (d_mul (d_sub (Fin 1) (alpha s)) (filteredDerivative s)))" (is "bounded_by 303 ?f")
    using bounded_by_add [of 302] by simp
  from bounded_by_mul [OF b(3) this] have D: "bounded_by 403 (d_mul (kd s) ?f)" by simp
  have "bounded_by 302 (d_mul (kp s) e)"
    using P by (rule bounded_by_mono) simp
  with It have "bounded_by 303 (d_add (d_mul (kp s) e) (d_mul (ki s) I))"
    using bounded_by_add [of 302] by simp
  then have "bounded_by 403 (d_add (d_mul (kp s) e) (d_mul (ki s) I))"
    by (rule bounded_by_mono) simp
  with D have "bounded_by 404 (d_add (d_add (d_mul (kp s) e) (d_mul (ki s) I)) (d_mul (kd s) ?f))"
    using bounded_by_add [of 403] by simp
  then have "bounded_by 405 (d_add (d_add (d_mul (kp s) e) (d_mul (ki s) I)) (d_mul (kd s) ?f))"
    by (rule bounded_by_mono) simp
  moreover have "js_gt (Fin h) (Fin 0)" using pos by simp
  ultimately show "bounded_by 405 (raw_output64 s sp cv dt now)"
    unfolding raw_output64_def Let_def h(1) e_def [symmetric] I_def [symmetric]
    by (simp only: if_True)
  from bounded_by_mul [OF b(10) hb(1)]
  show "bounded_by 200 (d_mul (maxRate s) (effective_dt64 s dt now))"
    by (simp add: h(1))
qed

lemma overflow_error: "d_sub (Fin (2 ^ 1023)) (Fin (- (2 ^ 1023))) = PInf"
proof -
  have "(2::real) ^ 1023 - - (2 ^ 1023) = 2 ^ 1024" by simp
  then show ?thesis by (simp only: d_sub_Fin round64_overflow order_refl)
qed

lemma overflow_raw:
  "raw_output64 overflow_pid (Fin (2 ^ 1023)) (Fin (- (2 ^ 1023))) (Some (Fin 1)) 0 = NaN"
proof -
  have k: "kp overflow_pid = Fin 0" by (simp add: overflow_pid_def PIDController64_def)
  have "d_mul (Fin 0) PInf = NaN" by (simp add: d_mul_def)
  then show ?thesis
    unfolding raw_output64_def Let_def overflow_error k by (simp only: d_add_NaN_left)
qed

lemma overflow_output:
  "snd (calculate64 overflow_pid (Fin (2 ^ 1023)) (Fin (- (2 ^ 1023))) (Some (Fin 1)) 0 0) = NaN"
  unfolding calculate64_output overflow_raw by (simp add: js_max_def js_min_def)

lemma tie_raw: "raw_output64 tie_pid (Fin 1) (Fin 0) (Some (Fin (1 / 64))) 0 = Fin 64"
proof -
  have f: "kp tie_pid = Fin 64" "ki tie_pid = Fin 0" "kd tie_pid = Fin 0"
    "integral tie_pid = Fin 0" "previousError tie_pid = Fin 0"
    "filteredDerivative tie_pid = Fin 0" "integralMax tie_pid = Fin 50"
    "integralMin tie_pid = Fin (- 50)" "alpha tie_pid = round64 0.15"
    by (simp_all add: tie_pid_def PIDController64_def)
  have dt: "effective_dt64 tie_pid (Some (Fin (1 / 64))) 0 = Fin (1 / 64)"
    by (simp add: effective_dt64_def)
  obtain a where a: "round64 0.15 = Fin a" "0 \<le> a" "a \<le> 1"
    using round64_unit [of "0.15"] by auto
  have e: "d_sub (Fin 1) (Fin 0) = Fin 1" by (simp add: d_sub_Fin)
  have p: "d_mul (Fin 64) (Fin 1) = Fin 64" by (simp add: d_mul_Fin round64_64)
  have i1: "d_add (Fin 0) (d_mul (Fin 1) (Fin (1 / 64))) = Fin (1 / 64)"
    by (simp add: d_mul_Fin d_add_Fin round64_64th)
  have i2: "js_max (Fin (- 50)) (js_min (Fin 50) (Fin (1 / 64))) = Fin (1 / 64)"
    by simp
  have it: "d_mul (Fin 0) (Fin (1 / 64)) = Fin 0" by (simp add: d_mul_Fin)
  have rd: "d_div (Fin 1) (Fin (1 / 64)) = Fin 64" by (simp add: d_div_Fin round64_64)
  from a(2,3) have "\<bar>a * 64\<bar> \<le> 2 ^ 1023" by simp
  from round64_finite [OF this] obtain b where b: "round64 (a * 64) = Fin b" "\<bar>b\<bar> \<le> 2 ^ 1023"
    by blast
  from a(2,3) have "\<bar>1 - a\<bar> \<le> 1" by simp
  from round64_small [OF this] obtain c where c: "round64 (1 - a) = Fin c"
    by (auto simp: is_fin_conv)
  from round64_finite [OF b(2)] obtain b' where b': "round64 b = Fin b'" by blast
  have fl: "d_add (d_mul (Fin a) (Fin 64)) (d_mul (d_sub (Fin 1) (Fin a)) (Fin 0)) = Fin b'"
    by (simp add: d_mul_Fin d_sub_Fin d_add_Fin b c b')
  have d: "d_mul (Fin 0) (Fin b') = Fin 0" by (simp add: d_mul_Fin)
  have s: "d_add (d_add (Fin 64) (Fin 0)) (Fin 0) = Fin 64" by (simp add: d_add_Fin round64_64)
  have g: "js_gt (Fin (1 / 64)) (Fin 0)" by simp
  show ?thesis
    unfolding raw_output64_def Let_def dt f a(1)
    by (simp only: e p i1 i2 it rd fl d s g if_True)
qed

lemma tie_output: "snd (calculate64 tie_pid (Fin 1) (Fin 0) (Some (Fin (1 / 64))) 0 0) = Fin (21 / 16)"
proof -
  have f: "lastOutput tie_pid = Fin (1 - 1 / 2 ^ 53)" "maxRate tie_pid = Fin 20"
    "outputMax tie_pid = Fin 100" "outputMin tie_pid = Fin (- 100)"
    by (simp_all add: tie_pid_def PIDController64_def)
  have dt: "effective_dt64 tie_pid (Some (Fin (1 / 64))) 0 = Fin (1 / 64)"
    by (simp add: effective_dt64_def)
  have mc: "d_mul (Fin 20) (Fin (1 / 64)) = Fin (5 / 16)"
    using round64_5_16 by (simp add: d_mul_Fin)
  have A: "d_sub (Fin (1 - 1 / 2 ^ 53)) (Fin (5 / 16)) = Fin (11 / 16 - 1 / 2 ^ 53)"
    by (simp only: d_sub_Fin round64_window_low)
  have B: "d_add (Fin (1 - 1 / 2 ^ 53)) (Fin (5 / 16)) = Fin (21 / 16)"
    by (simp only: d_add_Fin round64_tie)
  show ?thesis
    unfolding calculate64_output tie_raw f dt mc A B by simp
qed

lemma tie_pid_bounded: "pid_bounded tie_pid"
proof -
  from round64_unit [of "0.15"] have "bounded_by 0 (round64 0.15)" by auto
  then have "bounded_by 100 (round64 0.15)" by (rule bounded_by_mono) simp
  then show ?thesis by (simp add: pid_bounded_def tie_pid_def PIDController64_def)
qed

text \<open>
  Claim C1, as stated: from a state whose \<open>lastOutput\<close> lies within
  \<open>[outputMin, outputMax]\<close>, the output of \<open>calculate\<close> lies within these limits and
  differs from \<open>lastOutput\<close> by at most \<open>maxRate\<close> times the effective timestep. That fails
  in binary64 arithmetic, on finite states and arguments. On \<open>new PIDController(0, 0.1, 0.8)\<close>
  the call \<open>calculate(2^1023, -2^1023, 1)\<close> returns \<open>NaN\<close>: the error overflows to
  \<open>Infinity\<close>, \<open>0 * Infinity\<close> is \<open>NaN\<close>, and \<open>Math.max\<close> and \<open>Math.min\<close> keep it. On
  \<open>new PIDController(64, 0, 0)\<close> with \<open>lastOutput = 0.9999999999999999\<close> the call
  \<open>calculate(1, 0, 0.015625)\<close> returns 1.3125, the upper end of the rate limit's window
  as the addition rounds it, a step of \<open>0.3125 + 2^-53\<close> where \<open>maxRate\<close> times the timestep is
  0.3125.
\<close>

theorem calculate_output_counterexample:
  "pid_finite overflow_pid
   \<and> js_le (outputMin overflow_pid) (lastOutput overflow_pid)
   \<and> js_le (lastOutput overflow_pid) (outputMax overflow_pid)
   \<and> is_double (Fin (2 ^ 1023)) \<and> is_double (Fin (- (2 ^ 1023)))
   \<and> snd (calculate64 overflow_pid (Fin (2 ^ 1023)) (Fin (- (2 ^ 1023))) (Some (Fin 1)) 0 0)
       = NaN
   \<and> \<not> js_le (snd (calculate64 overflow_pid (Fin (2 ^ 1023)) (Fin (- (2 ^ 1023)))
                   (Some (Fin 1)) 0 0))
          (outputMax overflow_pid)
   \<and> pid_finite tie_pid \<and> is_double (lastOutput tie_pid)
   \<and> js_le (outputMin tie_pid) (lastOutput tie_pid)
   \<and> js_le (lastOutput tie_pid) (outputMax tie_pid)
   \<and> snd (calculate64 tie_pid (Fin 1) (Fin 0) (Some (Fin (1 / 64))) 0 0) = Fin (21 / 16)
   \<and> \<not> js_le (js_abs (d_sub (snd (calculate64 tie_pid (Fin 1) (Fin 0) (Some (Fin (1 / 64))) 0 0))
                    (lastOutput tie_pid)))
          (d_mul (maxRate tie_pid) (effective_dt64 tie_pid (Some (Fin (1 / 64))) 0))
   \<and> \<not> js_le (js_abs (js_sub (snd (calculate64 tie_pid (Fin 1) (Fin 0) (Some (Fin (1 / 64))) 0 0))
                    (lastOutput tie_pid)))
          (js_mul (maxRate tie_pid) (effective_dt64 tie_pid (Some (Fin (1 / 64))) 0))"
proof -
  have fin: "is_fin (round64 0.1)" "is_fin (round64 0.8)" "is_fin (round64 0.15)"
    by (rule round64_small, simp)+
  have a: "pid_finite overflow_pid" "pid_finite tie_pid"
    using fin by (simp_all add: pid_finite_def overflow_pid_def tie_pid_def PIDController64_def)
  have b: "js_le (outputMin overflow_pid) (lastOutput overflow_pid)"
    "js_le (lastOutput overflow_pid) (outputMax overflow_pid)"
    "js_le (outputMin tie_pid) (lastOutput tie_pid)"
    "js_le (lastOutput tie_pid) (outputMax tie_pid)"
    by (simp_all add: overflow_pid_def tie_pid_def PIDController64_def)
  have p: "(2::real) powr of_int 1023 = 2 ^ 1023" by simp
  from round64_pow2 [of 1023] have hi: "round64 (2 ^ 1023) = Fin (2 ^ 1023)"
    by (simp only: p)
  then have c: "is_double (Fin (2 ^ 1023))" "is_double (Fin (- (2 ^ 1023)))"
    by (simp_all only: is_double.simps round64_minus js_neg.simps)
  have f: "lastOutput tie_pid = Fin (1 - 1 / 2 ^ 53)" "maxRate tie_pid = Fin 20"
    by (simp_all add: tie_pid_def PIDController64_def)
  have d: "is_double (lastOutput tie_pid)"
    unfolding f by (simp only: is_double.simps round64_below_one)
  have dt: "effective_dt64 tie_pid (Some (Fin (1 / 64))) 0 = Fin (1 / 64)"
    by (simp add: effective_dt64_def)
  have mc: "d_mul (Fin 20) (Fin (1 / 64)) = Fin (5 / 16)"
    using round64_5_16 by (simp add: d_mul_Fin)
  have st: "d_sub (Fin (21 / 16)) (Fin (1 - 1 / 2 ^ 53)) = Fin (5 / 16 + 1 / 2 ^ 53)"
    by (simp only: d_sub_Fin round64_step)
  have e1: "\<not> js_le (js_abs (d_sub (Fin (21 / 16)) (lastOutput tie_pid)))
          (d_mul (maxRate tie_pid) (effective_dt64 tie_pid (Some (Fin (1 / 64))) 0))"
    unfolding f dt mc st by simp
  have e2: "\<not> js_le (js_abs (js_sub (Fin (21 / 16)) (lastOutput tie_pid)))
          (js_mul (maxRate tie_pid) (effective_dt64 tie_pid (Some (Fin (1 / 64))) 0))"
    unfolding f dt by simp
  have n: "\<not> js_le NaN (outputMax overflow_pid)"
    by (simp add: js_le_def)
  from a b c d e1 e2 n show ?thesis
    unfolding overflow_output tie_output by blast
qed

text \<open>
  Claim C1, amended. Take a state whose \<open>lastOutput\<close> is a finite number within
  \<open>[outputMin, outputMax]\<close>, the rate \<open>maxRate\<close> not negative. If the gains, the state, the
  integral limits, \<open>alpha\<close>, \<open>maxRate\<close>, the setpoint and the measurement are at most
  \<open>2^100\<close> in magnitude, and the timestep is at most zero, or between \<open>2^-100\<close> and
  \<open>2^100\<close>, or omitted with clock readings within \<open>2^53\<close> of zero, then the output of
  \<open>calculate\<close> in binary64 arithmetic lies within \<open>[outputMin, outputMax]\<close> and within the
  window \<open>[lastOutput - maxChange, lastOutput + maxChange]\<close> as the code computes it, each
  operation rounded, \<open>maxChange\<close> being \<open>maxRate\<close> times the effective timestep. For all
  other fields and arguments, finite or not, the output is \<open>NaN\<close> exactly when the sum of
  the three terms or \<open>maxChange\<close> is \<open>NaN\<close>, and otherwise lies within the same limits
  and window. In every case it is stored as the new \<open>lastOutput\<close>.
\<close>

theorem calculate_output_is_NaN_or_within_limits:
  fixes s :: pid and sp cv :: jsnum and dt :: "jsnum option" and now stamp :: int
  assumes last: "is_fin (lastOutput s)" "is_double (lastOutput s)"
      "js_le (outputMin s) (lastOutput s)" "js_le (lastOutput s) (outputMax s)"
    and rate: "js_le (Fin 0) (maxRate s)"
  defines "out \<equiv> snd (calculate64 s sp cv dt now stamp)"
    and "maxChange \<equiv> d_mul (maxRate s) (effective_dt64 s dt now)"
  shows "(pid_bounded s \<and> bounded_by 100 sp \<and> bounded_by 100 cv \<and> timestep_ok s dt now \<longrightarrow>
            js_le (outputMin s) out \<and> js_le out (outputMax s)
          \<and> js_le (d_sub (lastOutput s) maxChange) out
          \<and> js_le out (d_add (lastOutput s) maxChange))
       \<and> (out = NaN \<longleftrightarrow> raw_output64 s sp cv dt now = NaN \<or> maxChange = NaN)
       \<and> (out = NaN
          \<or> js_le (outputMin s) out \<and> js_le out (outputMax s)
            \<and> js_le (d_sub (lastOutput s) maxChange) out
            \<and> js_le out (d_add (lastOutput s) maxChange))
       \<and> lastOutput (fst (calculate64 s sp cv dt now stamp)) = out"
proof -
  note b = calculate64_band [OF last rate, of sp cv dt now stamp, folded out_def maxChange_def]
  have "out \<noteq> NaN"
    if "pid_bounded s \<and> bounded_by 100 sp \<and> bounded_by 100 cv \<and> timestep_ok s dt now"
  proof -
    from that raw_output64_bounded [of s sp cv dt now]
    have "raw_output64 s sp cv dt now \<noteq> NaN" "maxChange \<noteq> NaN"
      by (auto simp: maxChange_def dest: bounded_by_not_NaN)
    with b(1) show ?thesis by simp
  qed
  moreover have "lastOutput (fst (calculate64 s sp cv dt now stamp)) = out"
    unfolding out_def by (rule calculate64_lastOutput)
  ultimately show ?thesis
    using b by blast
qed

theorem calculate_output_is_NaN_or_within_limits_witness:
  "is_fin (lastOutput tie_pid) \<and> is_double (lastOutput tie_pid)
   \<and> js_le (outputMin tie_pid) (lastOutput tie_pid)
   \<and> js_le (lastOutput tie_pid) (outputMax tie_pid)
   \<and> js_le (Fin 0) (maxRate tie_pid)
   \<and> pid_bounded tie_pid \<and> bounded_by 100 (Fin 1) \<and> bounded_by 100 (Fin 0)
   \<and> timestep_ok tie_pid (Some (Fin (1 / 64))) 0
   \<and> snd (calculate64 tie_pid (Fin 1) (Fin 0) (Some (Fin (1 / 64))) 0 0) \<noteq> NaN
   \<and> js_le (outputMin tie_pid)
        (snd (calculate64 tie_pid (Fin 1) (Fin 0) (Some (Fin (1 / 64))) 0 0))
   \<and> js_le (snd (calculate64 tie_pid (Fin 1) (Fin 0) (Some (Fin (1 / 64))) 0 0))
        (outputMax tie_pid)
   \<and> js_le (d_sub (lastOutput tie_pid)
               (d_mul (maxRate tie_pid) (effective_dt64 tie_pid (Some (Fin (1 / 64))) 0)))
        (snd (calculate64 tie_pid (Fin 1) (Fin 0) (Some (Fin (1 / 64))) 0 0))
   \<and> js_le (snd (calculate64 tie_pid (Fin 1) (Fin 0) (Some (Fin (1 / 64))) 0 0))
        (d_add (lastOutput tie_pid)
               (d_mul (maxRate tie_pid) (effective_dt64 tie_pid (Some (Fin (1 / 64))) 0)))
   \<and> lastOutput (fst (calculate64 tie_pid (Fin 1) (Fin 0) (Some (Fin (1 / 64))) 0 0))
       = snd (calculate64 tie_pid (Fin 1) (Fin 0) (Some (Fin (1 / 64))) 0 0)"
proof -
  have f: "lastOutput tie_pid = Fin (1 - 1 / 2 ^ 53)"
    by (simp add: tie_pid_def PIDController64_def)
  have d: "is_double (lastOutput tie_pid)"
    unfolding f by (simp only: is_double.simps round64_below_one)
  have h: "is_fin (lastOutput tie_pid)" "is_double (lastOutput tie_pid)"
    "js_le (outputMin tie_pid) (lastOutput tie_pid)"
    "js_le (lastOutput tie_pid) (outputMax tie_pid)"
    "js_le (Fin 0) (maxRate tie_pid)"
    using d by (simp_all add: tie_pid_def PIDController64_def)
  have b: "pid_bounded tie_pid" "bounded_by 100 (Fin 1)" "bounded_by 100 (Fin 0)"
    "timestep_ok tie_pid (Some (Fin (1 / 64))) 0"
    by (simp_all add: tie_pid_bounded timestep_ok_def)
  from calculate_output_is_NaN_or_within_limits [OF h, of "Fin 1" "Fin 0" "Some (Fin (1 / 64))" 0 0]
    h b js_le_not_NaN
  show ?thesis by blast
qed

section \<open>The timestep of the physics step\<close>

lemma robot_deltaTime_Fin:
  "robot_deltaTime r now = Fin (min (real_of_int (now - lastTime_robot r) / 1000) 0.1)"
  by (simp add: robot_deltaTime_def)

lemma robot0_deltaTime_Fin:
  "robot0_deltaTime r now = Fin (min (real_of_int (now - lastTime_robot r) / 1000) 0.02)"
  by (simp add: robot0_deltaTime_def)

lemma robot_deltaTime_le0:
  "js_le (robot_deltaTime r now) (Fin 0) \<longleftrightarrow> now \<le> lastTime_robot r"
  by (simp add: robot_deltaTime_Fin min_le_iff_disj)

lemma robot0_deltaTime_le0:
  "js_le (robot0_deltaTime r now) (Fin 0) \<longleftrightarrow> now \<le> lastTime_robot r"
  by (simp add: robot0_deltaTime_Fin min_le_iff_disj)


lemma robot0_deltaTime_gt0:
  "js_gt (robot0_deltaTime r now) (Fin 0) \<longleftrightarrow> lastTime_robot r < now"
  by (simp add: robot0_deltaTime_Fin)

lemma robot_deltaTime_not_NaN: "\<not> isNaN (robot_deltaTime r now)"
  by (simp add: robot_deltaTime_Fin isNaN_def)

section \<open>The angle clamp of the physics step\<close>

lemma robot_update64_angle:
  assumes "js_gt (robot_deltaTime64 r now) (Fin 0)"
  shows "angle (robot_update64 r now) =
     js_max (d_div (js_neg MathPI64) (Fin 2))
       (js_min (d_div MathPI64 (Fin 2)) (stepped_angle64 r (robot_deltaTime64 r now)))"
proof -
  from assms have "\<not> (isNaN (robot_deltaTime64 r now) \<or> js_le (robot_deltaTime64 r now) (Fin 0))"
    by (cases "robot_deltaTime64 r now") (auto simp: js_gt_def js_le_def isNaN_def)
  then show ?thesis
    by (simp add: robot_update64_def Let_def stepped_angle64_def)
qed

lemma robot0_update64_angle:
  assumes "js_gt (robot0_deltaTime64 r now) (Fin 0)"
  shows "angle (robot0_update64 r now) =
     js_max (d_div (js_neg MathPI64) (Fin 2))
       (js_min (d_div MathPI64 (Fin 2)) (stepped_angle64 r (robot0_deltaTime64 r now)))"
proof -
  from assms have "\<not> js_le (robot0_deltaTime64 r now) (Fin 0)"
    by (cases "robot0_deltaTime64 r now") (auto simp: js_gt_def js_le_def)
  then show ?thesis
    by (simp add: robot0_update64_def Let_def stepped_angle64_def)
qed

lemma half_pi_band64: "js_le (d_div (js_neg MathPI64) (Fin 2)) (d_div MathPI64 (Fin 2))"
proof -
  have "js_le (Fin 0) (round64 pi)" by (rule round64_nonneg) simp
  then consider p where "round64 pi = Fin p" "0 \<le> p" | "round64 pi = PInf"
    by (cases "round64 pi") (auto simp: js_le_def)
  then show ?thesis
  proof cases
    case 1
    from 1(2) have "- p / 2 \<le> p / 2" by simp
    from round64_mono [OF this] show ?thesis
      by (simp add: MathPI64_def 1(1) d_div_Fin)
  next
    case 2
    then show ?thesis by (simp add: MathPI64_def d_div_def js_le_def)
  qed
qed

lemma first_step_dt:
  assumes "lastTime_robot r = 0"
  shows "\<exists>h. robot_deltaTime64 r 16 = Fin h \<and> 0 < h \<and> h \<le> 1"
    and "\<exists>h. robot0_deltaTime64 r 16 = Fin h \<and> 0 < h \<and> h \<le> 1"
proof -
  have s: "d_sub (Fin 16) (Fin 0) = Fin 16"
    using num64_16 by (simp add: d_sub_Fin num64_def)
  obtain a where a: "round64 (16 / 1000) = Fin a" "0 < a" "a \<le> 1"
    using round64_pos_unit [of "16 / 1000"] by auto
  obtain b where b: "round64 0.1 = Fin b" "0 < b" "b \<le> 1"
    using round64_pos_unit [of "0.1"] by auto
  obtain c where c: "round64 0.02 = Fin c" "0 < c" "c \<le> 1"
    using round64_pos_unit [of "0.02"] by auto
  from a b show "\<exists>h. robot_deltaTime64 r 16 = Fin h \<and> 0 < h \<and> h \<le> 1"
    by (simp add: robot_deltaTime64_def assms num64_16 num64_0 s d_div_Fin min_def)
  from a c show "\<exists>h. robot0_deltaTime64 r 16 = Fin h \<and> 0 < h \<and> h \<le> 1"
    by (simp add: robot0_deltaTime64_def assms num64_16 num64_0 s d_div_Fin min_def)
qed

lemma capped_timestep:
  assumes "js_gt (js_min x (round64 c)) (Fin 0)" "0 \<le> c" "c \<le> 1"
  shows "bounded_by 0 (js_min x (round64 c))"
proof -
  from round64_unit [OF assms(2,3)] obtain a where a: "round64 c = Fin a" "0 \<le> a" "a \<le> 1"
    by blast
  with assms(1) show ?thesis
    by (cases x) (auto simp: js_min_def js_gt_def)
qed

lemma robot_timestep_bounded:
  "js_gt (robot_deltaTime64 r now) (Fin 0) \<Longrightarrow> bounded_by 0 (robot_deltaTime64 r now)"
  "js_gt (robot0_deltaTime64 r now) (Fin 0) \<Longrightarrow> bounded_by 0 (robot0_deltaTime64 r now)"
  unfolding robot_deltaTime64_def robot0_deltaTime64_def
  by (erule capped_timestep, simp, simp)+

lemma stepped_angle64_bounded:
  assumes r: "robot_bounded r" and dt: "bounded_by 0 dt"
  shows "bounded_by 208 (stepped_angle64 r dt)"
proof -
  from r have m: "mass r = Fin 1" "length_robot r = Fin (1 / 2)"
    and b: "bounded_by 100 (gravity r)" "bounded_by 100 (friction r)"
      "bounded_by 100 (angle r)" "bounded_by 100 (angularVelocity r)"
      "bounded_by 100 (torque r)" "bounded_by 100 (disturbanceForce r)"
    by (simp_all add: robot_bounded_def)
  have half: "1 / 2 ^ 1 \<le> \<bar>1 / 2 :: real\<bar>" and qu: "1 / 2 ^ 2 \<le> \<bar>1 / 4 :: real\<bar>"
    by simp_all
  have gl: "bounded_by 101 (d_div (gravity r) (Fin (1 / 2)))"
    using bounded_by_div [OF b(1) half] by simp
  have G: "bounded_by 203 (d_mul (d_div (gravity r) (Fin (1 / 2))) (sin64 (angle r)))"
  proof -
    from b(3) obtain a where "angle r = Fin a" by (auto simp: bounded_by_conv)
    with bounded_by_mul [OF gl bounded_by_sin [of a]] show ?thesis
      by (auto intro: bounded_by_mono)
  qed
  have fl: "bounded_by 102 (d_div (friction r) (Fin (1 / 4)))"
    using bounded_by_div [OF b(2) qu] by simp
  have F: "bounded_by 203 (d_mul (d_div (friction r) (Fin (1 / 4))) (angularVelocity r))"
    using bounded_by_mul [OF fl b(4)] by (auto intro: bounded_by_mono)
  have C: "bounded_by 204 (d_div (torque r) (Fin (1 / 4)))"
    using bounded_by_div [OF b(5) qu] by (auto intro: bounded_by_mono)
  have D: "bounded_by 205 (d_div (disturbanceForce r) (Fin (1 / 4)))"
    using bounded_by_div [OF b(6) qu] by (auto intro: bounded_by_mono)
  have s1: "bounded_by 204 (d_sub (d_mul (d_div (gravity r) (Fin (1 / 2))) (sin64 (angle r)))
      (d_mul (d_div (friction r) (Fin (1 / 4))) (angularVelocity r)))"
    using bounded_by_sub [OF G F] by simp
  have s2: "bounded_by 205 (d_add (d_sub (d_mul (d_div (gravity r) (Fin (1 / 2))) (sin64 (angle r)))
      (d_mul (d_div (friction r) (Fin (1 / 4))) (angularVelocity r)))
      (d_div (torque r) (Fin (1 / 4))))"
    using bounded_by_add [OF s1 C] by simp
  have acc: "bounded_by 206 (d_add (d_add (d_sub
      (d_mul (d_div (gravity r) (Fin (1 / 2))) (sin64 (angle r)))
      (d_mul (d_div (friction r) (Fin (1 / 4))) (angularVelocity r)))
      (d_div (torque r) (Fin (1 / 4)))) (d_div (disturbanceForce r) (Fin (1 / 4))))"
    (is "bounded_by 206 ?acc")
    using bounded_by_add [OF s2 D] by simp
  have a1: "bounded_by 206 (d_mul ?acc dt)"
    using bounded_by_mul [OF acc dt] by simp
  have av: "bounded_by 206 (angularVelocity r)"
    using b(4) by (rule bounded_by_mono) simp
  have v: "bounded_by 207 (d_add (angularVelocity r) (d_mul ?acc dt))" (is "bounded_by 207 ?v")
    using bounded_by_add [OF av a1] by simp
  have v1: "bounded_by 207 (d_mul ?v dt)"
    using bounded_by_mul [OF v dt] by simp
  have an: "bounded_by 207 (angle r)"
    using b(3) by (rule bounded_by_mono) simp
  have "bounded_by 208 (d_add (angle r) (d_mul ?v dt))"
    using bounded_by_add [OF an v1] by simp
  then show ?thesis
    unfolding stepped_angle64_def m quarter .
qed

lemma pushed_terms:
  "d_div (Fin (2 ^ 1023)) (Fin (1 / 4)) = PInf"
  "d_div (Fin (- (2 ^ 1023))) (Fin (1 / 4)) = NInf"
proof -
  have "(2::real) ^ 1024 \<le> 2 ^ 1023 / (1 / 4)" by simp
  from round64_overflow [OF this] show a: "d_div (Fin (2 ^ 1023)) (Fin (1 / 4)) = PInf"
    by (simp only: d_div_def js_div.simps rounded_simps) simp
  have "round64 (- (2 ^ 1023 / (1 / 4))) = NInf"
    unfolding round64_minus round64_overflow [OF \<open>2 ^ 1024 \<le> 2 ^ 1023 / (1 / 4)\<close>] by simp
  then show "d_div (Fin (- (2 ^ 1023))) (Fin (1 / 4)) = NInf"
    by (simp only: d_div_def js_div.simps rounded_simps) simp
qed

lemma pushed_stepped_angle: "stepped_angle64 pushed_robot64 h = NaN"
proof -
  have f: "mass pushed_robot64 = Fin 1" "length_robot pushed_robot64 = Fin (1 / 2)"
    "torque pushed_robot64 = Fin (2 ^ 1023)"
    "disturbanceForce pushed_robot64 = Fin (- (2 ^ 1023))"
    by (simp_all add: pushed_robot64_def fresh_robot64_def BalancingRobot64_def
        applyDisturbance_def setTorque_def)
  show ?thesis
    unfolding stepped_angle64_def f quarter pushed_terms opposite_infinities
    by simp
qed

lemma fresh_robot64_bounded: "robot_bounded fresh_robot64"
proof -
  from round64_bound [of "9.81" 4] have "bounded_by 4 (round64 9.81)"
    by (auto simp: bounded_by_conv)
  then have g: "bounded_by 100 (round64 9.81)" by (rule bounded_by_mono) simp
  from round64_bound [of "0.1" 0] have "bounded_by 0 (round64 0.1)"
    by (auto simp: bounded_by_conv)
  then have f: "bounded_by 100 (round64 0.1)" by (rule bounded_by_mono) simp
  from g f show ?thesis
    by (simp add: robot_bounded_def fresh_robot64_def BalancingRobot64_def)
qed

text \<open>
  Claim C2, as stated: for a positive timestep and finite torque, disturbance and prior
  state, the angle lies within \<open>[-\<pi>/2, \<pi>/2]\<close> after \<open>update\<close>. That fails in binary64
  arithmetic. On a new robot with a torque of \<open>2^1023\<close> and a disturbance of \<open>-2^1023\<close>,
  16 ms after its construction, the control term \<open>torque / (m * l * l)\<close> overflows to
  \<open>Infinity\<close> and the disturbance term to \<open>-Infinity\<close>; their sum is \<open>NaN\<close>, and \<open>Math.max\<close>
  and \<open>Math.min\<close> keep it: the angle is \<open>NaN\<close> after \<open>update\<close>, in both variants.
\<close>

theorem update_angle_counterexample:
  "robot_finite pushed_robot64
   \<and> is_double (torque pushed_robot64) \<and> is_double (disturbanceForce pushed_robot64)
   \<and> js_gt (robot_deltaTime64 pushed_robot64 16) (Fin 0)
   \<and> angle (robot_update64 pushed_robot64 16) = NaN
   \<and> \<not> js_le (angle (robot_update64 pushed_robot64 16)) (d_div MathPI64 (Fin 2))
   \<and> js_gt (robot0_deltaTime64 pushed_robot64 16) (Fin 0)
   \<and> angle (robot0_update64 pushed_robot64 16) = NaN
   \<and> \<not> js_le (angle (robot0_update64 pushed_robot64 16)) (d_div MathPI64 (Fin 2))"
proof -
  have fin: "is_fin (round64 9.81)" "is_fin (round64 0.1)"
    using round64_bound [of "9.81" 4] round64_bound [of "0.1" 0]
    by (auto simp: is_fin_conv)
  then have a: "robot_finite pushed_robot64"
    by (simp add: robot_finite_def pushed_robot64_def fresh_robot64_def BalancingRobot64_def
        applyDisturbance_def setTorque_def)
  have p: "(2::real) powr of_int 1023 = 2 ^ 1023" by simp
  from round64_pow2 [of 1023] have hi: "round64 (2 ^ 1023) = Fin (2 ^ 1023)"
    by (simp only: p)
  have f: "torque pushed_robot64 = Fin (2 ^ 1023)"
    "disturbanceForce pushed_robot64 = Fin (- (2 ^ 1023))"
    "lastTime_robot pushed_robot64 = 0"
    by (simp_all add: pushed_robot64_def fresh_robot64_def BalancingRobot64_def
        applyDisturbance_def setTorque_def)
  from hi have b: "is_double (torque pushed_robot64)"
    "is_double (disturbanceForce pushed_robot64)"
    unfolding f by (simp_all only: is_double.simps round64_minus js_neg.simps)
  from first_step_dt [OF f(3)] have d: "js_gt (robot_deltaTime64 pushed_robot64 16) (Fin 0)"
    "js_gt (robot0_deltaTime64 pushed_robot64 16) (Fin 0)"
    by auto
  have n: "angle (robot_update64 pushed_robot64 16) = NaN"
    "angle (robot0_update64 pushed_robot64 16) = NaN"
    unfolding robot_update64_angle [OF d(1)] robot0_update64_angle [OF d(2)]
      pushed_stepped_angle
    by (simp_all add: js_max_def js_min_def)
  have "\<not> js_le NaN (d_div MathPI64 (Fin 2))"
    by (simp add: js_le_def)
  with a b d n show ?thesis by simp
qed

text \<open>
  Claim C2, amended. Take a positive timestep. For a robot with the mass and the length
  of the constructor whose gravity, friction, angle, angular velocity, torque and
  disturbance are at most \<open>2^100\<close> in magnitude, the angle after \<open>update\<close> in binary64
  arithmetic lies within \<open>[-Math.PI / 2, Math.PI / 2]\<close>. For every other state the angle is
  \<open>NaN\<close> exactly when the integrated angle is \<open>NaN\<close>, and otherwise lies within these
  bounds. Both hold in both variants.
\<close>

theorem update_angle_is_NaN_or_within_quarter_turn:
  "(js_gt (robot_deltaTime64 r now) (Fin 0) \<longrightarrow>
      (robot_bounded r \<longrightarrow>
         js_le (d_div (js_neg MathPI64) (Fin 2)) (angle (robot_update64 r now))
       \<and> js_le (angle (robot_update64 r now)) (d_div MathPI64 (Fin 2)))
    \<and> (angle (robot_update64 r now) = NaN
         \<longleftrightarrow> stepped_angle64 r (robot_deltaTime64 r now) = NaN)
    \<and> (angle (robot_update64 r now) = NaN
       \<or> js_le (d_div (js_neg MathPI64) (Fin 2)) (angle (robot_update64 r now))
         \<and> js_le (angle (robot_update64 r now)) (d_div MathPI64 (Fin 2))))
   \<and> (js_gt (robot0_deltaTime64 r now) (Fin 0) \<longrightarrow>
      (robot_bounded r \<longrightarrow>
         js_le (d_div (js_neg MathPI64) (Fin 2)) (angle (robot0_update64 r now))
       \<and> js_le (angle (robot0_update64 r now)) (d_div MathPI64 (Fin 2)))
    \<and> (angle (robot0_update64 r now) = NaN
         \<longleftrightarrow> stepped_angle64 r (robot0_deltaTime64 r now) = NaN)
    \<and> (angle (robot0_update64 r now) = NaN
       \<or> js_le (d_div (js_neg MathPI64) (Fin 2)) (angle (robot0_update64 r now))
         \<and> js_le (angle (robot0_update64 r now)) (d_div MathPI64 (Fin 2))))"
proof -
  have a: "(robot_bounded r \<longrightarrow> js_le lo (js_max lo (js_min hi (stepped_angle64 r h)))
             \<and> js_le (js_max lo (js_min hi (stepped_angle64 r h))) hi)
         \<and> (js_max lo (js_min hi (stepped_angle64 r h)) = NaN \<longleftrightarrow> stepped_angle64 r h = NaN)
         \<and> (js_max lo (js_min hi (stepped_angle64 r h)) = NaN
            \<or> js_le lo (js_max lo (js_min hi (stepped_angle64 r h)))
              \<and> js_le (js_max lo (js_min hi (stepped_angle64 r h))) hi)"
    if "js_le lo hi" "bounded_by 0 h" for lo hi h
  proof -
    have "stepped_angle64 r h \<noteq> NaN" if "robot_bounded r"
      using stepped_angle64_bounded [OF that \<open>bounded_by 0 h\<close>] by (rule bounded_by_not_NaN)
    with clamp_NaN_or_in_band [OF \<open>js_le lo hi\<close>, of "stepped_angle64 r h"]
    show ?thesis by blast
  qed
  show ?thesis
  proof (intro conjI impI)
    assume dt: "js_gt (robot_deltaTime64 r now) (Fin 0)"
    from a [OF half_pi_band64 robot_timestep_bounded(1) [OF dt]]
    show "angle (robot_update64 r now) = NaN
           \<longleftrightarrow> stepped_angle64 r (robot_deltaTime64 r now) = NaN"
      and "angle (robot_update64 r now) = NaN
         \<or> js_le (d_div (js_neg MathPI64) (Fin 2)) (angle (robot_update64 r now))
           \<and> js_le (angle (robot_update64 r now)) (d_div MathPI64 (Fin 2))"
      unfolding robot_update64_angle [OF dt] by blast+
    assume "robot_bounded r"
    with a [OF half_pi_band64 robot_timestep_bounded(1) [OF dt]]
    show "js_le (d_div (js_neg MathPI64) (Fin 2)) (angle (robot_update64 r now))"
      and "js_le (angle (robot_update64 r now)) (d_div MathPI64 (Fin 2))"
      unfolding robot_update64_angle [OF dt] by blast+
  next
    assume dt: "js_gt (robot0_deltaTime64 r now) (Fin 0)"
    from a [OF half_pi_band64 robot_timestep_bounded(2) [OF dt]]
    show "angle (robot0_update64 r now) = NaN
           \<longleftrightarrow> stepped_angle64 r (robot0_deltaTime64 r now) = NaN"
      and "angle (robot0_update64 r now) = NaN
         \<or> js_le (d_div (js_neg MathPI64) (Fin 2)) (angle (robot0_update64 r now))
           \<and> js_le (angle (robot0_update64 r now)) (d_div MathPI64 (Fin 2))"
      unfolding robot0_update64_angle [OF dt] by blast+
    assume "robot_bounded r"
    with a [OF half_pi_band64 robot_timestep_bounded(2) [OF dt]]
    show "js_le (d_div (js_neg MathPI64) (Fin 2)) (angle (robot0_update64 r now))"
      and "js_le (angle (robot0_update64 r now)) (d_div MathPI64 (Fin 2))"
      unfolding robot0_update64_angle [OF dt] by blast+
  qed
qed

theorem update_angle_is_NaN_or_within_quarter_turn_witness:
  "js_gt (robot_deltaTime64 fresh_robot64 16) (Fin 0) \<and> robot_bounded fresh_robot64
   \<and> angle (robot_update64 fresh_robot64 16) \<noteq> NaN
   \<and> js_le (d_div (js_neg MathPI64) (Fin 2)) (angle (robot_update64 fresh_robot64 16))
   \<and> js_le (angle (robot_update64 fresh_robot64 16)) (d_div MathPI64 (Fin 2))
   \<and> js_gt (robot0_deltaTime64 fresh_robot64 16) (Fin 0)
   \<and> angle (robot0_update64 fresh_robot64 16) \<noteq> NaN
   \<and> js_le (d_div (js_neg MathPI64) (Fin 2)) (angle (robot0_update64 fresh_robot64 16))
   \<and> js_le (angle (robot0_update64 fresh_robot64 16)) (d_div MathPI64 (Fin 2))"
proof -
  have t: "lastTime_robot fresh_robot64 = 0"
    by (simp add: fresh_robot64_def BalancingRobot64_def)
  from first_step_dt [OF t] have d: "js_gt (robot_deltaTime64 fresh_robot64 16) (Fin 0)"
    "js_gt (robot0_deltaTime64 fresh_robot64 16) (Fin 0)"
    by auto
  from update_angle_is_NaN_or_within_quarter_turn [of fresh_robot64 16] d
    fresh_robot64_bounded js_le_not_NaN
  show ?thesis by blast
qed

section \<open>The integral accumulator\<close>

lemma calculate_integral:
  "integral (fst (calculate s sp cv dt now stamp)) =
     js_max (integralMin s) (js_min (integralMax s)
       (js_add (integral s) (js_mul (js_sub sp cv) (effective_dt s dt now))))"
  "integralMin (fst (calculate s sp cv dt now stamp)) = integralMin s"
  "integralMax (fst (calculate s sp cv dt now stamp)) = integralMax s"
  by (simp_all add: calculate_def Let_def storeHistory_keeps)

lemma calculate_integral_in_band:
  assumes "integral_in_band s" "is_fin sp" "is_fin cv" "dt_finite dt"
  shows "integral_in_band (fst (calculate s sp cv dt now stamp))"
proof -
  from effective_dt_finite [OF assms(4)] obtain h where h: "effective_dt s dt now = Fin h"
    by blast
  from assms(2,3) obtain a b where ab: "sp = Fin a" "cv = Fin b"
    by (auto simp: is_fin_conv)
  from assms(1) have band: "js_le (integralMin s) (integralMax s)" and n: "integral s \<noteq> NaN"
    using js_le_trans js_le_not_NaN unfolding integral_in_band_def by blast+
  have "js_add (integral s) (js_mul (js_sub sp cv) (effective_dt s dt now)) \<noteq> NaN"
    unfolding h ab using n by (simp add: js_add_not_NaN)
  from clamp_in_band [OF band this] show ?thesis
    unfolding integral_in_band_def calculate_integral by simp
qed

lemma apply_call_integral_in_band:
  assumes "integral_in_band s" "tuning_call c"
  shows "integral_in_band (apply_call s c)"
proof (cases c)
  case (Calculate sp cv dt now stamp)
  with assms show ?thesis by (simp add: calculate_integral_in_band)
next
  case (SetGains a b c)
  with assms show ?thesis by (simp add: setGains_def integral_in_band_def)
next
  case (SetParameters a b c)
  with assms show ?thesis by (simp add: setParameters_def integral_in_band_def)
qed (use assms in simp_all)

lemma states_after_integral_in_band:
  assumes "integral_in_band s" "list_all tuning_call calls"
  shows "list_all integral_in_band (states_after s calls)"
  using assms
proof (induction calls arbitrary: s)
  case Nil
  then show ?case by simp
next
  case (Cons c calls)
  then show ?case by (simp add: apply_call_integral_in_band)
qed

lemma update_basic_integral_in_band:
  assumes "integral_in_band_basic s" "is_fin (setpoint_b s)" "is_fin cv"
  shows "integral_in_band_basic (fst (update_basic s cv now))"
proof (cases "js_le (js_div (Fin (of_int (now - lastTime_b s))) (Fin 1000)) (Fin 0)")
  case True
  then show ?thesis using assms(1) by (simp add: update_basic_def Let_def)
next
  case False
  from assms(2,3) obtain a b where ab: "setpoint_b s = Fin a" "cv = Fin b"
    by (auto simp: is_fin_conv)
  from assms(1) have band: "js_le (integralMin_b s) (integralMax_b s)"
    and n: "integral_b s \<noteq> NaN"
    using js_le_trans js_le_not_NaN unfolding integral_in_band_basic_def by blast+
  have "js_add (integral_b s) (js_mul (js_sub (setpoint_b s) cv)
      (js_div (Fin (of_int (now - lastTime_b s))) (Fin 1000))) \<noteq> NaN"
    unfolding ab using n by (simp add: js_add_not_NaN)
  from clamp_in_band [OF band this] False show ?thesis
    unfolding integral_in_band_basic_def by (simp add: update_basic_def Let_def)
qed

text \<open>
  Claim C3. Starting with the accumulator inside \<open>[integralMin, integralMax]\<close>, it is
  inside that band after every call of any sequence of \<open>calculate\<close> calls (finite setpoint
  and measurement, finite or omitted timestep) and gain changes by \<open>setGains\<close> or
  \<open>setParameters\<close> with any gains at all. The clamp is on the accumulator: the new
  accumulator is the clamped sum, whatever \<open>ki\<close> is. The basic controller's \<open>update\<close>
  keeps its accumulator in its band as well.
\<close>

theorem integral_never_leaves_band:
  assumes "integral_in_band s" "list_all tuning_call calls"
  shows "list_all integral_in_band (states_after s calls)
       \<and> integral (fst (calculate s sp cv dt now stamp))
           = js_max (integralMin s) (js_min (integralMax s)
               (js_add (integral s) (js_mul (js_sub sp cv) (effective_dt s dt now))))
       \<and> (integral_in_band_basic b \<and> is_fin (setpoint_b b) \<and> is_fin cv \<longrightarrow>
            integral_in_band_basic (fst (update_basic b cv now)))"
  using states_after_integral_in_band [OF assms] calculate_integral(1)
    update_basic_integral_in_band
  by blast

theorem integral_never_leaves_band_witness:
  "integral_in_band (createDefault 0 0)
   \<and> list_all tuning_call
        [Calculate (Fin 1000) (Fin 0) (Some (Fin 1)) 0 0, SetGains (Fin 9) (Fin 9) (Fin 9),
         Calculate (Fin 1000) (Fin 0) None 5 5]
   \<and> list_all integral_in_band
        (states_after (createDefault 0 0)
          [Calculate (Fin 1000) (Fin 0) (Some (Fin 1)) 0 0, SetGains (Fin 9) (Fin 9) (Fin 9),
           Calculate (Fin 1000) (Fin 0) None 5 5])
   \<and> integral_in_band_basic (PIDController_basic (Fin 1) (Fin 1) (Fin 1) 0)
   \<and> is_fin (setpoint_b (PIDController_basic (Fin 1) (Fin 1) (Fin 1) 0))
   \<and> is_fin (Fin 1000)
   \<and> integral_in_band_basic
        (fst (update_basic (PIDController_basic (Fin 1) (Fin 1) (Fin 1) 0) (Fin 1000) 5))"
proof -
  have h: "integral_in_band (createDefault 0 0)"
    "list_all tuning_call
        [Calculate (Fin 1000) (Fin 0) (Some (Fin 1)) 0 0, SetGains (Fin 9) (Fin 9) (Fin 9),
         Calculate (Fin 1000) (Fin 0) None 5 5]"
    by (simp_all add: integral_in_band_def createDefault_def PIDController_def dt_finite_def)
  have b: "integral_in_band_basic (PIDController_basic (Fin 1) (Fin 1) (Fin 1) 0)"
    "is_fin (setpoint_b (PIDController_basic (Fin 1) (Fin 1) (Fin 1) 0))"
    "is_fin (Fin 1000)"
    by (simp_all add: integral_in_band_basic_def PIDController_basic_def)
  from integral_never_leaves_band [OF h,
      where b = "PIDController_basic (Fin 1) (Fin 1) (Fin 1) 0" and cv = "Fin 1000"
        and now = 5] h b
  show ?thesis by blast
qed

section \<open>Degenerate timesteps of \<open>calculate\<close>\<close>

text \<open>
  Claim C4, as stated: a degenerate timestep (non-positive or not finite) is replaced by
  0.001 s. That fails for \<open>NaN\<close> and for \<open>+Infinity\<close>, which the guard
  \<open>deltaTime <= 0\<close> lets through: with \<open>NaN\<close> the output is \<open>NaN\<close>, with \<open>+Infinity\<close>
  it is 7.5 where the timestep 0.001 gives 0.02.
\<close>

theorem degenerate_timestep_counterexample:
  "degenerate NaN \<and> degenerate PInf
   \<and> effective_dt (createDefault 0 0) (Some NaN) 0 = NaN
   \<and> effective_dt (createDefault 0 0) (Some PInf) 0 = PInf
   \<and> snd (calculate (createDefault 0 0) (Fin 1) (Fin 0) (Some NaN) 0 0) = NaN
   \<and> snd (calculate (createDefault 0 0) (Fin 1) (Fin 0) (Some PInf) 0 0) = Fin 7.5
   \<and> snd (calculate (createDefault 0 0) (Fin 1) (Fin 0) (Some (Fin 0.001)) 0 0) = Fin 0.02"
  by (simp add: degenerate_def effective_dt_def calculate_def Let_def createDefault_def
      PIDController_def js_le_def js_gt_def js_max_def js_min_def js_sub_def)

text \<open>
  Claim C4, amended. \<open>calculate\<close> has no error result. It replaces a timestep by 0.001 s
  exactly when the timestep is at most zero (\<open>-Infinity\<close> included), be it passed or
  derived from the clock, and then proceeds as for 0.001 s; every other timestep,
  \<open>NaN\<close> and \<open>+Infinity\<close> included, is used as it is.
\<close>

theorem nonpositive_timestep_is_replaced:
  "effective_dt s (Some dt) now = (if js_le dt (Fin 0) then Fin 0.001 else dt)
   \<and> effective_dt s None now =
       (if now \<le> lastTime s then Fin 0.001 else Fin (real_of_int (now - lastTime s) / 1000))
   \<and> (js_le dt (Fin 0) \<longrightarrow>
        calculate s sp cv (Some dt) now stamp = calculate s sp cv (Some (Fin 0.001)) now stamp)
   \<and> (now \<le> lastTime s \<longrightarrow>
        calculate s sp cv None now stamp = calculate s sp cv (Some (Fin 0.001)) now stamp)"
  by (simp add: effective_dt_def calculate_def Let_def)

theorem nonpositive_timestep_is_replaced_witness:
  "js_le NInf (Fin 0)
   \<and> calculate (createDefault 0 0) (Fin 1) (Fin 0) (Some NInf) 0 7
       = calculate (createDefault 0 0) (Fin 1) (Fin 0) (Some (Fin 0.001)) 0 7
   \<and> 0 \<le> lastTime (createDefault 0 0)
   \<and> calculate (createDefault 0 0) (Fin 1) (Fin 0) None 0 7
       = calculate (createDefault 0 0) (Fin 1) (Fin 0) (Some (Fin 0.001)) 0 7"
proof -
  have h: "js_le NInf (Fin 0)" "0 \<le> lastTime (createDefault 0 0)"
    by (simp_all add: js_le_def createDefault_def PIDController_def)
  from nonpositive_timestep_is_replaced
    [where s = "createDefault 0 0" and dt = NInf and now = 0 and sp = "Fin 1"
      and cv = "Fin 0" and stamp = 7] h
  show ?thesis by blast
qed

section \<open>Degenerate timesteps of the physics step\<close>

text \<open>
  Claim C5. The timestep of \<open>update\<close> is derived from two integral clock readings and
  capped, so it is always finite. When it is at most zero (or were it not finite), the
  step changes nothing but the clock stamp \<open>lastTime\<close>: angle, angularVelocity,
  angularAcceleration, position, velocity, torque, disturbanceForce and trail are as
  before, in both variants, and there is no error result.
\<close>

theorem update_is_noop_on_degenerate_timestep:
  "(js_le (robot_deltaTime r now) (Fin 0) \<or> \<not> is_fin (robot_deltaTime r now) \<longrightarrow>
      robot_update r now = r\<lparr>lastTime_robot := now\<rparr>)
   \<and> (js_le (robot0_deltaTime r now) (Fin 0) \<or> \<not> is_fin (robot0_deltaTime r now) \<longrightarrow>
      robot0_update r now = r\<lparr>lastTime_robot := now\<rparr>)"
proof (intro conjI impI)
  assume "js_le (robot_deltaTime r now) (Fin 0) \<or> \<not> is_fin (robot_deltaTime r now)"
  then have "js_le (robot_deltaTime r now) (Fin 0)"
    by (simp add: robot_deltaTime_Fin)
  then show "robot_update r now = r\<lparr>lastTime_robot := now\<rparr>"
    by (simp add: robot_update_def Let_def)
next
  assume "js_le (robot0_deltaTime r now) (Fin 0) \<or> \<not> is_fin (robot0_deltaTime r now)"
  then have "js_le (robot0_deltaTime r now) (Fin 0)"
    by (simp add: robot0_deltaTime_Fin)
  then show "robot0_update r now = r\<lparr>lastTime_robot := now\<rparr>"
    by (simp add: robot0_update_def Let_def)
qed

theorem update_is_noop_on_degenerate_timestep_witness:
  "js_le (robot_deltaTime fresh_robot 0) (Fin 0)
   \<and> robot_update fresh_robot 0 = fresh_robot\<lparr>lastTime_robot := 0\<rparr>
   \<and> js_le (robot0_deltaTime fresh_robot (- 5)) (Fin 0)
   \<and> robot0_update fresh_robot (- 5) = fresh_robot\<lparr>lastTime_robot := - 5\<rparr>"
proof -
  have h: "js_le (robot_deltaTime fresh_robot 0) (Fin 0)"
    "js_le (robot0_deltaTime fresh_robot (- 5)) (Fin 0)"
    by (simp_all add: robot_deltaTime_le0 robot0_deltaTime_le0 fresh_robot_def
        BalancingRobot_def)
  from update_is_noop_on_degenerate_timestep [of fresh_robot 0]
    update_is_noop_on_degenerate_timestep [of fresh_robot "- 5"] h
  show ?thesis by blast
qed

section \<open>Runs of the tick loop\<close>

lemma robot_update_lastTime: "lastTime_robot (robot_update r t) = t"
  by (simp add: robot_update_def Let_def)

lemma robot_update_maxTrailLength: "maxTrailLength (robot_update r t) = maxTrailLength r"
  by (simp add: robot_update_def Let_def)

lemma limit_trail_times:
  "map pt_time (limit_trail n timeout t tr) =
     filter (\<lambda>u. t - u < timeout) (if length tr > n then tl (map pt_time tr) else map pt_time tr)"
  by (cases tr) (simp_all add: limit_trail_def filter_map comp_def)

lemma robot_update_trail_times:
  assumes "lastTime_robot r < t"
  shows "map pt_time (trail (robot_update r t)) =
     filter (\<lambda>u. t - u < 3000)
       (if length (trail r) + 1 > maxTrailLength r
        then tl (map pt_time (trail r) @ [t]) else map pt_time (trail r) @ [t])"
proof -
  from assms have "\<not> (isNaN (robot_deltaTime r t) \<or> js_le (robot_deltaTime r t) (Fin 0))"
    by (simp add: robot_deltaTime_le0 robot_deltaTime_not_NaN)
  then show ?thesis
    by (simp add: robot_update_def Let_def limit_trail_times)
qed

lemma tick_robot_trail:
  assumes "disturbance a = None"
  shows "trail (fst (tick w a)) = trail (robot_update (fst w) (clock_robot a))"
    and "lastTime_robot (fst (tick w a)) = clock_robot a"
    and "maxTrailLength (fst (tick w a)) = maxTrailLength (fst w)"
  using assms
  by (simp_all add: tick_def Let_def setTorque_def robot_update_lastTime
      robot_update_maxTrailLength)

lemma tick_trail_times:
  assumes "disturbance a = None" "lastTime_robot (fst w) < clock_robot a"
    and "map pt_time (trail (fst w)) = ts" "length ts + 1 \<le> maxTrailLength (fst w)"
  shows "map pt_time (trail (fst (tick w a))) = filter (\<lambda>u. clock_robot a - u < 3000) (ts @ [clock_robot a])"
proof -
  have "trail (fst (tick w a)) = trail (robot_update (fst w) (clock_robot a))"
    using assms(1) by (simp add: tick_def Let_def setTorque_def)
  moreover have "length (trail (fst w)) = length ts"
    using assms(3) [THEN arg_cong, of length] by simp
  ultimately show ?thesis
    using robot_update_trail_times [OF assms(2)] assms(3,4) by simp
qed

lemma fresh_same_timesteps:
  "same_timesteps fresh_world [plain_tick 200, plain_tick 400]
     fresh_world [plain_tick 300, plain_tick 5000]"
proof -
  have d: "disturbance (plain_tick t) = None" "clock_robot (plain_tick t) = t"
    "dt_arg (plain_tick t) = Some (Fin 0.1)" "new_gains (plain_tick t) = None"
    "setpoint_arg (plain_tick t) = Fin 0" for t
    by (simp_all add: plain_tick_def)
  have w: "lastTime_robot (fst fresh_world) = 0"
    by (simp add: fresh_world_def fresh_robot_def BalancingRobot_def)
  show ?thesis
    by (simp add: d tick_robot_trail robot_deltaTime_Fin w effective_dt_Some_Fin)
qed

text \<open>
  Claim C6, as stated: the same initial state and the same sequence of timesteps, gains
  and disturbances give the same state trajectory. The timestep is not an input of the
  physics step: \<open>update\<close> derives it from the clock and caps it at 0.1 s. Two runs from
  the same state whose clock readings are 200, 400 and 300, 5000 ms, the controller
  being passed 0.1 s, both see the timesteps 0.1, 0.1 in both components, yet the first
  keeps both trail points and the second drops the point that is 4.7 s old.
\<close>

theorem tick_loop_counterexample:
  "same_timesteps fresh_world [plain_tick 200, plain_tick 400] fresh_world [plain_tick 300, plain_tick 5000]
   \<and> map (\<lambda>w. map pt_time (trail (fst w))) (trajectory fresh_world [plain_tick 200, plain_tick 400])
       = [[200], [200, 400]]
   \<and> map (\<lambda>w. map pt_time (trail (fst w))) (trajectory fresh_world [plain_tick 300, plain_tick 5000])
       = [[300], [5000]]"
proof -
  have d: "disturbance (plain_tick t) = None" "clock_robot (plain_tick t) = t"
    "dt_arg (plain_tick t) = Some (Fin 0.1)" "new_gains (plain_tick t) = None"
    "setpoint_arg (plain_tick t) = Fin 0" for t
    by (simp_all add: plain_tick_def)
  have w: "lastTime_robot (fst fresh_world) = 0" "trail (fst fresh_world) = []"
    "maxTrailLength (fst fresh_world) = 100"
    by (simp_all add: fresh_world_def fresh_robot_def BalancingRobot_def)
  define wA where "wA = tick fresh_world (plain_tick 200)"
  define wB where "wB = tick fresh_world (plain_tick 300)"
  have t1: "map pt_time (trail (fst wA)) = [200]" "map pt_time (trail (fst wB)) = [300]"
    unfolding wA_def wB_def
    using tick_trail_times [of "plain_tick 200" fresh_world "[]"]
      tick_trail_times [of "plain_tick 300" fresh_world "[]"]
    by (simp_all add: d w)
  have m1: "lastTime_robot (fst wA) = 200" "maxTrailLength (fst wA) = 100"
    "lastTime_robot (fst wB) = 300" "maxTrailLength (fst wB) = 100"
    unfolding wA_def wB_def by (simp_all add: tick_robot_trail d w)
  have t2: "map pt_time (trail (fst (tick wA (plain_tick 400)))) = [200, 400]"
    "map pt_time (trail (fst (tick wB (plain_tick 5000)))) = [5000]"
    using tick_trail_times [of "plain_tick 400" wA "[200]"]
      tick_trail_times [of "plain_tick 5000" wB "[300]"]
    by (simp_all add: d m1 t1)
  have s: "same_timesteps fresh_world [plain_tick 200, plain_tick 400]
      fresh_world [plain_tick 300, plain_tick 5000]"
    by (simp add: d tick_robot_trail robot_deltaTime_Fin w effective_dt_Some_Fin)
  from s t1 t2 show ?thesis by (simp add: wA_def wB_def)
qed

lemma robot_core_fields:
  assumes "robot_core r1 = robot_core r2"
  shows "mass r1 = mass r2" "length_robot r1 = length_robot r2" "gravity r1 = gravity r2"
    "friction r1 = friction r2" "angle r1 = angle r2" "angularVelocity r1 = angularVelocity r2"
    "angularAcceleration r1 = angularAcceleration r2" "position r1 = position r2"
    "velocity r1 = velocity r2" "baseX r1 = baseX r2" "baseY r1 = baseY r2"
    "torque r1 = torque r2" "disturbanceForce r1 = disturbanceForce r2"
    "disturbanceDecay r1 = disturbanceDecay r2" "groundOffset r1 = groundOffset r2"
    "groundSpeed r1 = groundSpeed r2" "maxTrailLength r1 = maxTrailLength r2"
proof -
  have "mass (robot_core r1) = mass (robot_core r2)"
    "length_robot (robot_core r1) = length_robot (robot_core r2)"
    "gravity (robot_core r1) = gravity (robot_core r2)"
    "friction (robot_core r1) = friction (robot_core r2)"
    "angle (robot_core r1) = angle (robot_core r2)"
    "angularVelocity (robot_core r1) = angularVelocity (robot_core r2)"
    "angularAcceleration (robot_core r1) = angularAcceleration (robot_core r2)"
    "position (robot_core r1) = position (robot_core r2)"
    "velocity (robot_core r1) = velocity (robot_core r2)"
    "baseX (robot_core r1) = baseX (robot_core r2)"
    "baseY (robot_core r1) = baseY (robot_core r2)"
    "torque (robot_core r1) = torque (robot_core r2)"
    "disturbanceForce (robot_core r1) = disturbanceForce (robot_core r2)"
    "disturbanceDecay (robot_core r1) = disturbanceDecay (robot_core r2)"
    "groundOffset (robot_core r1) = groundOffset (robot_core r2)"
    "groundSpeed (robot_core r1) = groundSpeed (robot_core r2)"
    "maxTrailLength (robot_core r1) = maxTrailLength (robot_core r2)"
    using assms by simp_all
  then show "mass r1 = mass r2" "length_robot r1 = length_robot r2" "gravity r1 = gravity r2"
    "friction r1 = friction r2" "angle r1 = angle r2" "angularVelocity r1 = angularVelocity r2"
    "angularAcceleration r1 = angularAcceleration r2" "position r1 = position r2"
    "velocity r1 = velocity r2" "baseX r1 = baseX r2" "baseY r1 = baseY r2"
    "torque r1 = torque r2" "disturbanceForce r1 = disturbanceForce r2"
    "disturbanceDecay r1 = disturbanceDecay r2" "groundOffset r1 = groundOffset r2"
    "groundSpeed r1 = groundSpeed r2" "maxTrailLength r1 = maxTrailLength r2"
    by (simp_all add: robot_core_def)
qed

lemma robot_core_update:
  assumes "robot_core r1 = robot_core r2"
    and "robot_deltaTime r1 t1 = robot_deltaTime r2 t2"
  shows "robot_core (robot_update r1 t1) = robot_core (robot_update r2 t2)"
proof -
  note f = robot_core_fields [OF assms(1)]
  have m: "robot.more r1 = robot.more r2" by simp
  show ?thesis
    by (rule robot.equality)
       (simp_all add: robot_update_def Let_def robot_core_def assms(2) f)
qed

lemma pid_core_fields:
  assumes "pid_core c1 = pid_core c2"
  shows "kp c1 = kp c2" "ki c1 = ki c2" "kd c1 = kd c2" "setpoint c1 = setpoint c2"
    "previousError c1 = previousError c2" "integral c1 = integral c2"
    "lastOutput c1 = lastOutput c2" "errorHistory c1 = errorHistory c2"
    "map (\<lambda>e. e\<lparr>timestamp := 0\<rparr>) (outputHistory c1)
       = map (\<lambda>e. e\<lparr>timestamp := 0\<rparr>) (outputHistory c2)"
    "maxHistoryLength c1 = maxHistoryLength c2" "integralMax c1 = integralMax c2"
    "integralMin c1 = integralMin c2" "outputMax c1 = outputMax c2"
    "outputMin c1 = outputMin c2" "alpha c1 = alpha c2"
    "filteredDerivative c1 = filteredDerivative c2" "maxRate c1 = maxRate c2"
proof -
  have "kp (pid_core c1) = kp (pid_core c2)" "ki (pid_core c1) = ki (pid_core c2)"
    "kd (pid_core c1) = kd (pid_core c2)" "setpoint (pid_core c1) = setpoint (pid_core c2)"
    "previousError (pid_core c1) = previousError (pid_core c2)"
    "integral (pid_core c1) = integral (pid_core c2)"
    "lastOutput (pid_core c1) = lastOutput (pid_core c2)"
    "errorHistory (pid_core c1) = errorHistory (pid_core c2)"
    "outputHistory (pid_core c1) = outputHistory (pid_core c2)"
    "maxHistoryLength (pid_core c1) = maxHistoryLength (pid_core c2)"
    "integralMax (pid_core c1) = integralMax (pid_core c2)"
    "integralMin (pid_core c1) = integralMin (pid_core c2)"
    "outputMax (pid_core c1) = outputMax (pid_core c2)"
    "outputMin (pid_core c1) = outputMin (pid_core c2)"
    "alpha (pid_core c1) = alpha (pid_core c2)"
    "filteredDerivative (pid_core c1) = filteredDerivative (pid_core c2)"
    "maxRate (pid_core c1) = maxRate (pid_core c2)"
    using assms by simp_all
  then show "kp c1 = kp c2" "ki c1 = ki c2" "kd c1 = kd c2" "setpoint c1 = setpoint c2"
    "previousError c1 = previousError c2" "integral c1 = integral c2"
    "lastOutput c1 = lastOutput c2" "errorHistory c1 = errorHistory c2"
    "map (\<lambda>e. e\<lparr>timestamp := 0\<rparr>) (outputHistory c1)
       = map (\<lambda>e. e\<lparr>timestamp := 0\<rparr>) (outputHistory c2)"
    "maxHistoryLength c1 = maxHistoryLength c2" "integralMax c1 = integralMax c2"
    "integralMin c1 = integralMin c2" "outputMax c1 = outputMax c2"
    "outputMin c1 = outputMin c2" "alpha c1 = alpha c2"
    "filteredDerivative c1 = filteredDerivative c2" "maxRate c1 = maxRate c2"
    by (simp_all add: pid_core_def)
qed

lemma pid_core_storeHistory:
  assumes "pid_core c1 = pid_core c2"
  shows "pid_core (storeHistory c1 e out comps t1) = pid_core (storeHistory c2 e out comps t2)"
proof -
  note f = pid_core_fields [OF assms]
  show ?thesis
    by (rule pid.equality)
       (simp_all add: storeHistory_def Let_def pid_core_def f map_tl)
qed

lemma pid_core_calculate:
  assumes "pid_core c1 = pid_core c2"
    and "effective_dt c1 d1 t1 = effective_dt c2 d2 t2"
  shows "pid_core (fst (calculate c1 sp cv d1 t1 u1)) = pid_core (fst (calculate c2 sp cv d2 t2 u2))"
    and "snd (calculate c1 sp cv d1 t1 u1) = snd (calculate c2 sp cv d2 t2 u2)"
proof -
  note f = pid_core_fields [OF assms(1)]
  show "snd (calculate c1 sp cv d1 t1 u1) = snd (calculate c2 sp cv d2 t2 u2)"
    by (simp add: calculate_def Let_def assms(2) f)
  have "pid_core (c1\<lparr>setpoint := sp, integral := a, filteredDerivative := b,
            previousError := e, lastTime := t1, lastOutput := out\<rparr>)
      = pid_core (c2\<lparr>setpoint := sp, integral := a, filteredDerivative := b,
            previousError := e, lastTime := t2, lastOutput := out\<rparr>)" for a b e out
    by (rule pid.equality) (simp_all add: pid_core_def f)
  then show "pid_core (fst (calculate c1 sp cv d1 t1 u1)) = pid_core (fst (calculate c2 sp cv d2 t2 u2))"
    unfolding calculate_def Let_def fst_conv assms(2) f
    by (rule pid_core_storeHistory)
qed

lemma pid_core_setGains:
  assumes "pid_core c1 = pid_core c2"
  shows "pid_core (setGains c1 x y z) = pid_core (setGains c2 x y z)"
  using pid_core_fields [OF assms]
  by (intro pid.equality) (simp_all add: pid_core_def setGains_def)

lemma robot_core_applyDisturbance:
  assumes "robot_core r1 = robot_core r2"
  shows "robot_core (applyDisturbance r1 f) = robot_core (applyDisturbance r2 f)"
  using robot_core_fields [OF assms]
  by (intro robot.equality) (simp_all add: robot_core_def applyDisturbance_def)

lemma robot_deltaTime_applyDisturbance:
  "robot_deltaTime (applyDisturbance r f) t = robot_deltaTime r t"
  by (simp add: robot_deltaTime_def applyDisturbance_def)

lemma effective_dt_setGains:
  "effective_dt (setGains c x y z) d t = effective_dt c d t"
  by (cases d) (simp_all add: effective_dt_def setGains_def)

lemma core_tick:
  assumes "core w1 = core w2"
    and "new_gains a = new_gains b" "disturbance a = disturbance b" "setpoint_arg a = setpoint_arg b"
    and "robot_deltaTime (fst w1) (clock_robot a) = robot_deltaTime (fst w2) (clock_robot b)"
    and "effective_dt (snd w1) (dt_arg a) (clock_pid a)
          = effective_dt (snd w2) (dt_arg b) (clock_pid b)"
  shows "core (tick w1 a) = core (tick w2 b)"
proof -
  from assms(1) have r: "robot_core (fst w1) = robot_core (fst w2)"
    and c: "pid_core (snd w1) = pid_core (snd w2)"
    by (simp_all add: core_def)
  define r1 where "r1 = (case disturbance a of None \<Rightarrow> fst w1
                | Some f \<Rightarrow> applyDisturbance (fst w1) (Some f))"
  define r2 where "r2 = (case disturbance b of None \<Rightarrow> fst w2
                | Some f \<Rightarrow> applyDisturbance (fst w2) (Some f))"
  define c1 where "c1 = (case new_gains a of None \<Rightarrow> snd w1
                | Some (x, y, z) \<Rightarrow> setGains (snd w1) x y z)"
  define c2 where "c2 = (case new_gains b of None \<Rightarrow> snd w2
                | Some (x, y, z) \<Rightarrow> setGains (snd w2) x y z)"
  note rf = robot_core_fields [OF r]
  note cf = pid_core_fields [OF c]
  have r12: "robot_core r1 = robot_core r2"
  proof (cases "disturbance b")
    case None
    then show ?thesis unfolding r1_def r2_def assms(3) using r by simp
  next
    case (Some f)
    then show ?thesis unfolding r1_def r2_def assms(3)
      using robot_core_applyDisturbance [OF r] by simp
  qed
  have dtr: "robot_deltaTime r1 (clock_robot a) = robot_deltaTime r2 (clock_robot b)"
    using assms(5) unfolding r1_def r2_def assms(3)
    by (simp add: robot_deltaTime_applyDisturbance split: option.splits)
  have c12: "pid_core c1 = pid_core c2"
  proof (cases "new_gains b")
    case None
    then show ?thesis unfolding c1_def c2_def assms(2) using c by simp
  next
    case (Some g)
    obtain x y z where "g = (x, y, z)" by (cases g)
    with Some show ?thesis unfolding c1_def c2_def assms(2)
      using pid_core_setGains [OF c] by simp
  qed
  have dtc: "effective_dt c1 (dt_arg a) (clock_pid a) = effective_dt c2 (dt_arg b) (clock_pid b)"
    using assms(6) unfolding c1_def c2_def assms(2)
    by (simp add: effective_dt_setGains split: option.splits prod.splits)
  note u = robot_core_update [OF r12 dtr]
  from robot_core_fields(5) [OF u]
  have ang: "getAngleDegrees (robot_update r1 (clock_robot a))
      = getAngleDegrees (robot_update r2 (clock_robot b))"
    by (simp add: getAngleDegrees_def)
  note k = pid_core_calculate [OF c12 dtc, of "setpoint_arg b" 
      "getAngleDegrees (robot_update r2 (clock_robot b))" "clock_stamp a" "clock_stamp b"]
  have t: "robot_core (setTorque (robot_update r1 (clock_robot a)) x)
      = robot_core (setTorque (robot_update r2 (clock_robot b)) x)" for x
    using robot_core_fields [OF u]
    by (intro robot.equality) (simp_all add: setTorque_def robot_core_def)
  show ?thesis
    unfolding core_def tick_def Let_def r1_def [symmetric] r2_def [symmetric]
      c1_def [symmetric] c2_def [symmetric]
    by (simp add: assms(4) ang k t)
qed

text \<open>
  Claim C6, amended. Two runs of the tick loop that start from states with the same core
  and see the same gain changes, disturbances, setpoints and derived timesteps pass
  through states with the same core: every field of the robot and of the controller is
  the same at every tick, except the clock stamps (\<open>lastTime\<close>, the timestamps of the
  output history) and the render trail.
\<close>

theorem tick_loop_repeats_up_to_clock_stamps:
  assumes "core w1 = core w2" and "same_timesteps w1 ins1 w2 ins2"
  shows "map core (trajectory w1 ins1) = map core (trajectory w2 ins2)"
  using assms
proof (induction w1 ins1 w2 ins2 rule: same_timesteps.induct)
  case (2 w1 a as w2 b bs)
  from "2.prems" have "core (tick w1 a) = core (tick w2 b)"
    by (intro core_tick) simp_all
  with 2 show ?case by simp
qed simp_all

theorem tick_loop_repeats_up_to_clock_stamps_witness:
  "core fresh_world = core fresh_world
   \<and> same_timesteps fresh_world [plain_tick 200, plain_tick 400]
         fresh_world [plain_tick 300, plain_tick 5000]
   \<and> map core (trajectory fresh_world [plain_tick 200, plain_tick 400])
       = map core (trajectory fresh_world [plain_tick 300, plain_tick 5000])"
  using tick_loop_repeats_up_to_clock_stamps [OF refl fresh_same_timesteps]
    fresh_same_timesteps
  by blast

section \<open>Decay of a disturbance\<close>





section \<open>Resetting twice\<close>

text \<open>
  Claim C8, as stated: a second \<open>reset\<close> leaves a component as the first left it. The
  earlier variant of the robot draws a new random angle at every reset (with the draws
  0 and 1/2 the angles are -0.1 and 0).
\<close>

theorem reset_twice_counterexample:
  "angle (robot0_reset (robot0_reset (BalancingRobot (Fin 800) (Fin 600) 0) 0 0) (1/2) 0)
     \<noteq> angle (robot0_reset (BalancingRobot (Fin 800) (Fin 600) 0) 0 0)"
  by (simp add: robot0_reset_def BalancingRobot_def)

text \<open>
  Claim C8, amended. A second \<open>reset\<close> changes nothing but the clock stamp
  \<open>lastTime\<close>, which takes the reading of the second call, on both controllers and on the
  later variant of the robot (which resets its controller too); on the earlier variant
  it also replaces the angle by a new random one in \<open>[-0.1, 0.1)\<close>.
\<close>

theorem reset_twice:
  "reset (reset s t1) t2 = (reset s t1)\<lparr>lastTime := t2\<rparr>
   \<and> reset_basic (reset_basic b t1) t2 = (reset_basic b t1)\<lparr>lastTime_b := t2\<rparr>
   \<and> robot_reset (fst (robot_reset r s t1 u1)) (snd (robot_reset r s t1 u1)) t2 u2
       = ((fst (robot_reset r s t1 u1))\<lparr>lastTime_robot := t2\<rparr>,
          (snd (robot_reset r s t1 u1))\<lparr>lastTime := u2\<rparr>)
   \<and> robot0_reset (robot0_reset r x1 t1) x2 t2
       = (robot0_reset r x1 t1)\<lparr>angle := Fin (x2 * 0.2 - 0.1), lastTime_robot := t2\<rparr>"
  by (simp add: reset_def reset_basic_def robot_reset_def robot0_reset_def)

section \<open>Auto-tuning without error\<close>

lemma slew_falling:
  fixes out :: real
  assumes "0 \<le> m" "omin \<le> out" "out \<le> omax" "T \<le> out"
  defines "out' \<equiv> max omin (min omax (max (out - m) (min (out + m) T)))"
  shows "omin \<le> out'" "out' \<le> omax" "T \<le> out'" "out' \<le> out"
  using assms by (auto simp: max_def min_def)

lemma slew_rising:
  fixes out :: real
  assumes "0 \<le> m" "omin \<le> out" "out \<le> omax" "out \<le> T"
  defines "out' \<equiv> max omin (min omax (max (out - m) (min (out + m) T)))"
  shows "omin \<le> out'" "out' \<le> omax" "out' \<le> T" "out \<le> out'"
  using assms by (auto simp: max_def min_def)

lemma budget_account:
  fixes out out' :: real and n n' :: nat
  assumes n': "n' \<le> n + (if out * out' < 0 then 1 else 0)"
    and inv: "n + crossings_left locked out \<le> 2"
    and mono: "if locked then out' \<le> out \<and> locked' else out \<le> out'"
  shows "n' + crossings_left locked' out' \<le> 2"
proof -
  have cross: "out * out' < 0 \<longleftrightarrow> (out < 0 \<and> 0 < out') \<or> (0 < out \<and> out' < 0)"
    by (auto simp: mult_less_0_iff)
  consider (a) "out < 0" "0 < out'" | (b) "0 < out" "out' < 0"
    | (c) "\<not> out * out' < 0"
    using cross by blast
  then show ?thesis
  proof cases
    case a
    then have "out * out' < 0" using cross by blast
    then have k: "n' \<le> n + 1" using n' by simp
    from a mono have nl: "\<not> locked" by (auto split: if_splits)
    with inv a have "n = 0" by (simp add: crossings_left_def)
    with k a show ?thesis by (simp add: crossings_left_def)
  next
    case b
    then have "out * out' < 0" using cross by blast
    then have k: "n' \<le> n + 1" using n' by simp
    from b mono have l: "locked" "locked'" by (auto split: if_splits)
    with inv b have "n \<le> 1" by (simp add: crossings_left_def)
    with k b l show ?thesis by (simp add: crossings_left_def)
  next
    case c
    then have k: "n' \<le> n" using n' by simp
    from c cross have s: "\<not> (out < 0 \<and> 0 < out')" "\<not> (0 < out \<and> out' < 0)" by blast+
    show ?thesis
    proof (cases locked)
      case True
      with mono have m: "out' \<le> out" "locked'" by simp_all
      show ?thesis
      proof (cases "out < 0")
        case True
        with m have "out' < 0" by simp
        with k inv m show ?thesis by (simp add: crossings_left_def)
      next
        case False
        with inv \<open>locked\<close> have "n \<le> 1" by (simp add: crossings_left_def)
        with k m show ?thesis by (simp add: crossings_left_def)
      qed
    next
      case False
      with mono have m: "out \<le> out'" by simp
      show ?thesis
      proof (cases "0 < out")
        case True
        with m have "0 < out'" by simp
        moreover from inv False True have "n \<le> 1" by (simp add: crossings_left_def)
        ultimately show ?thesis using k by (simp add: crossings_left_def)
      next
        case F: False
        with inv False have "n = 0" by (simp add: crossings_left_def)
        with k show ?thesis by (simp add: crossings_left_def)
      qed
    qed
  qed
qed

lemma shrink_nonneg:
  fixes u :: real
  assumes "0 \<le> a" "a \<le> 1" "0 \<le> u"
  shows "0 \<le> (1 - a) * u" "(1 - a) * u \<le> u"
proof -
  from assms show "0 \<le> (1 - a) * u" by simp
  have "(1 - a) * u \<le> 1 * u" using assms by (intro mult_right_mono) simp_all
  then show "(1 - a) * u \<le> u" by simp
qed

lemma shrink_nonpos:
  fixes u :: real
  assumes "0 \<le> a" "a \<le> 1" "u \<le> 0"
  shows "(1 - a) * u \<le> 0" "u \<le> (1 - a) * u"
  using shrink_nonneg [OF assms(1,2), of "- u"] assms(3) by simp_all

lemma crossings_left_le: "crossings_left b x \<le> 2"
  by (simp add: crossings_left_def)

lemma zero_error_invI:
  assumes "pid_finite (ctrl st)" "previousError (ctrl st) = Fin 0"
    and "lastOutput_local st = lastOutput (ctrl st)"
    and "0 \<le> val (alpha (ctrl st))" "val (alpha (ctrl st)) \<le> 1"
    and "0 \<le> val (maxRate (ctrl st))"
    and "max (val (integralMin (ctrl st)))
           (min (val (integralMax (ctrl st))) (val (integral (ctrl st))))
         = val (integral (ctrl st))"
    and "val (outputMin (ctrl st)) \<le> out" "out \<le> val (outputMax (ctrl st))"
    and "out = val (lastOutput (ctrl st))"
    and "u = val (kd (ctrl st))
           * ((1 - val (alpha (ctrl st))) * val (filteredDerivative (ctrl st)))"
    and "target = val (ki (ctrl st)) * val (integral (ctrl st)) + u"
    and "if falling then 0 \<le> u else u \<le> 0"
    and "length (peaks st)
           + crossings_left (if falling then target \<le> out else out \<le> target)
               (if falling then out else - out) \<le> 2"
  shows "zero_error_inv falling st"
  using assms unfolding zero_error_inv_def Let_def by (cases falling) auto

lemma zero_error_inv_peaks: "zero_error_inv falling st \<Longrightarrow> length (peaks st) \<le> 2"
  unfolding zero_error_inv_def Let_def by linarith

lemma calculate_zero_error:
  assumes fin: "pid_finite s"
    and fd': "fd' = val (alpha s) * ((0 - val (previousError s)) / 0.02)
                  + (1 - val (alpha s)) * val (filteredDerivative s)"
    and I': "I' = max (val (integralMin s)) (min (val (integralMax s)) (val (integral s)))"
    and out: "out = max (val (outputMin s)) (min (val (outputMax s))
        (max (val (lastOutput s) - val (maxRate s) * 0.02)
          (min (val (lastOutput s) + val (maxRate s) * 0.02)
             (val (ki s) * I' + val (kd s) * fd'))))"
    and c: "c = calculate s (Fin v) (Fin v) (Some (Fin 0.02)) t1 t2"
  shows "snd c = Fin out"
    and "kp (fst c) = kp s" "ki (fst c) = ki s" "kd (fst c) = kd s"
    and "previousError (fst c) = Fin 0" "integral (fst c) = Fin I'"
    and "filteredDerivative (fst c) = Fin fd'" "lastOutput (fst c) = Fin out"
    and "integralMax (fst c) = integralMax s" "integralMin (fst c) = integralMin s"
    and "outputMax (fst c) = outputMax s" "outputMin (fst c) = outputMin s"
    and "alpha (fst c) = alpha s" "maxRate (fst c) = maxRate s"
proof -
  from fin have f: "kp s = Fin (val (kp s))" "ki s = Fin (val (ki s))"
    "kd s = Fin (val (kd s))" "previousError s = Fin (val (previousError s))"
    "integral s = Fin (val (integral s))" "lastOutput s = Fin (val (lastOutput s))"
    "integralMax s = Fin (val (integralMax s))" "integralMin s = Fin (val (integralMin s))"
    "outputMax s = Fin (val (outputMax s))" "outputMin s = Fin (val (outputMin s))"
    "alpha s = Fin (val (alpha s))" "filteredDerivative s = Fin (val (filteredDerivative s))"
    "maxRate s = Fin (val (maxRate s))"
    unfolding pid_finite_def by (simp_all add: Fin_val [symmetric])
  have h: "effective_dt s (Some (Fin 0.02)) t1 = Fin 0.02" "(0::real) < 0.02"
    by (simp_all add: effective_dt_Some_Fin)
  have e: "(0::real) = v - v" by simp
  have I'': "I' = max (val (integralMin s)) (min (val (integralMax s))
      (val (integral s) + 0 * 0.02))"
    using I' by simp
  have out': "out = max (val (outputMin s)) (min (val (outputMax s))
        (max (val (lastOutput s) - val (maxRate s) * 0.02)
          (min (val (lastOutput s) + val (maxRate s) * 0.02)
             (val (kp s) * 0 + val (ki s) * I' + val (kd s) * fd'))))"
    using out by simp
  note r = calculate_Fin [OF f h e I'' fd' out', of t2]
  show "snd c = Fin out"
    and "kp (fst c) = kp s" "ki (fst c) = ki s" "kd (fst c) = kd s"
    and "previousError (fst c) = Fin 0" "integral (fst c) = Fin I'"
    and "filteredDerivative (fst c) = Fin fd'" "lastOutput (fst c) = Fin out"
    and "integralMax (fst c) = integralMax s" "integralMin (fst c) = integralMin s"
    and "outputMax (fst c) = outputMax s" "outputMin (fst c) = outputMin s"
    and "alpha (fst c) = alpha s" "maxRate (fst c) = maxRate s"
    unfolding c r by (simp_all add: storeHistory_keeps)
qed

lemma autoTune_body_zero_error:
  fixes clock :: "nat \<Rightarrow> int \<times> int" and v :: real and n :: nat
  assumes inv: "zero_error_inv falling st"
  defines "st' \<equiv> autoTune_body clock (Fin v) (Fin v) n st"
  shows "zero_error_inv falling st'"
    and "kp (ctrl st') = kp (ctrl st)" "ki (ctrl st') = ki (ctrl st)"
        "kd (ctrl st') = kd (ctrl st)"
proof -
  define s where "s = ctrl st"
  define al where "al = val (alpha s)"
  define fd where "fd = val (filteredDerivative s)"
  define I where "I = val (integral s)"
  define out where "out = val (lastOutput s)"
  define u where "u = val (kd s) * ((1 - al) * fd)"
  define target where "target = val (ki s) * I + u"
  define m where "m = val (maxRate s) * 0.02"
  define fd' where "fd' = al * ((0 - val (previousError s)) / 0.02) + (1 - al) * fd"
  define I' where "I' = max (val (integralMin s)) (min (val (integralMax s)) I)"
  define out' where "out' = max (val (outputMin s)) (min (val (outputMax s))
        (max (out - m) (min (out + m) (val (ki s) * I' + val (kd s) * fd'))))"
  define c where "c = calculate s (Fin v) (Fin v) (Some (Fin 0.02)) (fst (clock n)) (snd (clock n))"
  from inv have i: "pid_finite s" "previousError s = Fin 0" "lastOutput_local st = lastOutput s"
    "0 \<le> al" "al \<le> 1" "0 \<le> val (maxRate s)" "I' = I"
    "val (outputMin s) \<le> out" "out \<le> val (outputMax s)"
    "if falling then 0 \<le> u else u \<le> 0"
    "length (peaks st) + crossings_left (if falling then target \<le> out else out \<le> target)
        (if falling then out else - out) \<le> 2"
    unfolding zero_error_inv_def Let_def s_def al_def fd_def I_def out_def u_def target_def I'_def
    by simp_all
  note z = calculate_zero_error [OF i(1) fd'_def [unfolded al_def fd_def]
      I'_def [unfolded I_def] out'_def [unfolded out_def m_def] c_def]
  have fd'_eq: "fd' = (1 - al) * fd"
    unfolding fd'_def using i(2) by simp
  have tgt: "val (ki s) * I' + val (kd s) * fd' = target"
    unfolding target_def u_def fd'_eq using i(7) by simp
  have m: "0 \<le> m" unfolding m_def using i(6) by simp
  have lo: "lastOutput s = Fin out"
    using i(1) unfolding out_def pid_finite_def by (simp add: Fin_val [symmetric])
  have st': "st' = \<lparr>ctrl = fst c,
      peaks = (if out * out' < 0 \<and> js_gt (Fin (real_of_int (int n - int (lastCrossing st)) * 0.02)) (Fin 0.1)
               then peaks st @ [\<lparr>peak_time = Fin (real n * 0.02), peak_value = Fin out',
                    peak_period = Fin (real_of_int (int n - int (lastCrossing st)) * 0.02)\<rparr>]
               else peaks st),
      lastOutput_local = Fin out',
      lastCrossing = (if out * out' < 0 then n else lastCrossing st)\<rparr>"
    unfolding st'_def autoTune_body_def s_def [symmetric] c_def [symmetric]
    by (simp add: case_prod_beta z(1) i(3) lo Let_def)
  show "kp (ctrl st') = kp (ctrl st)" "ki (ctrl st') = ki (ctrl st)"
       "kd (ctrl st') = kd (ctrl st)"
    unfolding st' using z(2-4) by (simp_all add: s_def)
  have n': "length (peaks st') \<le> length (peaks st) + (if out * out' < 0 then 1 else 0)"
    unfolding st' by simp
  have fin': "pid_finite (fst c)"
    using i(1) unfolding pid_finite_def z by simp
  define u' where "u' = val (kd s) * ((1 - al) * fd')"
  have u': "u' = (1 - al) * u" unfolding u'_def u_def fd'_eq by simp
  define target' where "target' = val (ki s) * I' + u'"
  have out'_eq: "out' = max (val (outputMin s)) (min (val (outputMax s))
        (max (out - m) (min (out + m) target)))"
    unfolding out'_def tgt ..
  have b': "val (outputMin s) \<le> out'" "out' \<le> val (outputMax s)"
    unfolding out'_eq using i(8,9) by simp_all
  have sign': "if falling then 0 \<le> u' else u' \<le> 0"
    using i(10) shrink_nonneg(1) [OF i(4,5)] shrink_nonpos(1) [OF i(4,5)]
    unfolding u' by (simp split: if_splits)
  have budget: "length (peaks st')
             + crossings_left (if falling then target' \<le> out' else out' \<le> target')
                 (if falling then out' else - out') \<le> 2"
  proof (cases falling)
    case True
    with i(10) have un: "0 \<le> u" by simp
    have tt: "target' \<le> target"
      unfolding target'_def target_def u' using shrink_nonneg(2) [OF i(4,5) un] i(7) by simp
    have mono: "if target \<le> out then out' \<le> out \<and> target' \<le> out' else out \<le> out'"
    proof (cases "target \<le> out")
      case True
      note sf = slew_falling [OF m i(8,9) True, folded out'_eq]
      from sf(3,4) tt True show ?thesis by simp
    next
      case False
      then have "out \<le> target" by simp
      note sr = slew_rising [OF m i(8,9) this, folded out'_eq]
      from sr(4) False show ?thesis by simp
    qed
    from i(11) True have inv0: "length (peaks st) + crossings_left (target \<le> out) out \<le> 2"
      by simp
    from budget_account [OF n' inv0 mono] True show ?thesis by simp
  next
    case False
    with i(10) have un: "u \<le> 0" by simp
    have tt: "target \<le> target'"
      unfolding target'_def target_def u' using shrink_nonpos(2) [OF i(4,5) un] i(7) by simp
    have mono: "if out \<le> target then - out' \<le> - out \<and> out' \<le> target' else - out \<le> - out'"
    proof (cases "out \<le> target")
      case True
      note sr = slew_rising [OF m i(8,9) True, folded out'_eq]
      from sr(3,4) tt True show ?thesis by simp
    next
      case False
      then have "target \<le> out" by simp
      note sf = slew_falling [OF m i(8,9) this, folded out'_eq]
      from sf(4) False show ?thesis by simp
    qed
    from i(11) False have inv0: "length (peaks st) + crossings_left (out \<le> target) (- out) \<le> 2"
      by simp
    have n'': "length (peaks st') \<le> length (peaks st) + (if (- out) * (- out') < 0 then 1 else 0)"
      using n' by simp
    from budget_account [OF n'' inv0 mono] False show ?thesis by simp
  qed
  have ctrl': "ctrl st' = fst c" unfolding st' by simp
  have loc: "lastOutput_local st' = lastOutput (ctrl st')"
    unfolding ctrl' z unfolding st' by simp
  have fixp: "max (val (integralMin (ctrl st')))
           (min (val (integralMax (ctrl st'))) (val (integral (ctrl st'))))
         = val (integral (ctrl st'))"
    unfolding ctrl' z using i(7) by (simp add: I'_def)
  show "zero_error_inv falling st'"
  proof (rule zero_error_invI [where out = out' and u = u' and target = target'])
    show "pid_finite (ctrl st')" unfolding ctrl' by (rule fin')
    show "previousError (ctrl st') = Fin 0" unfolding ctrl' by (rule z)
    show "lastOutput_local st' = lastOutput (ctrl st')" by (rule loc)
    show "0 \<le> val (alpha (ctrl st'))" "val (alpha (ctrl st')) \<le> 1"
      unfolding ctrl' z using i(4,5) by (simp_all add: al_def)
    show "0 \<le> val (maxRate (ctrl st'))" unfolding ctrl' z by (rule i(6))
    show "max (val (integralMin (ctrl st')))
           (min (val (integralMax (ctrl st'))) (val (integral (ctrl st'))))
         = val (integral (ctrl st'))" by (rule fixp)
    show "val (outputMin (ctrl st')) \<le> out'" "out' \<le> val (outputMax (ctrl st'))"
      unfolding ctrl' z by (rule b')+
    show "out' = val (lastOutput (ctrl st'))" unfolding ctrl' z by simp
    show "u' = val (kd (ctrl st'))
           * ((1 - val (alpha (ctrl st'))) * val (filteredDerivative (ctrl st')))"
      unfolding ctrl' z u'_def al_def by simp
    show "target' = val (ki (ctrl st')) * val (integral (ctrl st')) + u'"
      unfolding ctrl' z target'_def by simp
    show "if falling then 0 \<le> u' else u' \<le> 0" by (rule sign')
    show "length (peaks st')
           + crossings_left (if falling then target' \<le> out' else out' \<le> target')
               (if falling then out' else - out') \<le> 2" by (rule budget)
  qed
qed

declare autoTune_loop.simps [simp del]

lemma autoTune_loop_zero_error:
  fixes clock :: "nat \<Rightarrow> int \<times> int" and v :: real
  assumes "zero_error_inv falling st"
  shows "length (peaks (autoTune_loop clock (Fin v) (Fin v) cyc n st)) \<le> 2
       \<and> kp (ctrl (autoTune_loop clock (Fin v) (Fin v) cyc n st)) = kp (ctrl st)
       \<and> ki (ctrl (autoTune_loop clock (Fin v) (Fin v) cyc n st)) = ki (ctrl st)
       \<and> kd (ctrl (autoTune_loop clock (Fin v) (Fin v) cyc n st)) = kd (ctrl st)"
  using assms
proof (induction "1000 - n" arbitrary: n st)
  case 0
  then have "\<not> n < 1000" by simp
  then have "autoTune_loop clock (Fin v) (Fin v) cyc n st = st"
    by (subst autoTune_loop.simps) simp
  with zero_error_inv_peaks [OF "0.prems"] show ?case by simp
next
  case (Suc k)
  then have n: "n < 1000" by simp
  define st' where "st' = autoTune_body clock (Fin v) (Fin v) n st"
  note b = autoTune_body_zero_error [OF Suc.prems, of clock v n, folded st'_def]
  show ?case
  proof (cases "js_ge (Fin (real (length (peaks st')))) (js_mul cyc (Fin 2))")
    case True
    with n have "autoTune_loop clock (Fin v) (Fin v) cyc n st = st'"
      by (subst autoTune_loop.simps) (simp add: st'_def Let_def)
    with zero_error_inv_peaks [OF b(1)] b(2-4) show ?thesis by simp
  next
    case False
    with n have e: "autoTune_loop clock (Fin v) (Fin v) cyc n st
        = autoTune_loop clock (Fin v) (Fin v) cyc (n + 1) st'"
      by (subst autoTune_loop.simps) (simp add: st'_def Let_def)
    from Suc.hyps(2) have "k = 1000 - (n + 1)" by simp
    from Suc.hyps(1) [OF this b(1)] b(2-4) show ?thesis
      unfolding e by simp
  qed
qed

lemma autoTune_first_iteration:
  fixes clock :: "nat \<Rightarrow> int \<times> int" and v :: real
  assumes fin: "pid_finite s" and cfg: "config_ok s"
  defines "st' \<equiv> autoTune_body clock (Fin v) (Fin v) 0
     \<lparr>ctrl = s, peaks = [], lastOutput_local = Fin 0, lastCrossing = 0\<rparr>"
  shows "\<exists>falling. zero_error_inv falling st'"
    and "kp (ctrl st') = kp s" "ki (ctrl st') = ki s" "kd (ctrl st') = kd s"
proof -
  define al where "al = val (alpha s)"
  define fd' where "fd' = al * ((0 - val (previousError s)) / 0.02)
      + (1 - al) * val (filteredDerivative s)"
  define I' where "I' = max (val (integralMin s)) (min (val (integralMax s)) (val (integral s)))"
  define out' where "out' = max (val (outputMin s)) (min (val (outputMax s))
        (max (val (lastOutput s) - val (maxRate s) * 0.02)
          (min (val (lastOutput s) + val (maxRate s) * 0.02)
            (val (ki s) * I' + val (kd s) * fd'))))"
  define c where "c = calculate s (Fin v) (Fin v) (Some (Fin 0.02)) (fst (clock 0)) (snd (clock 0))"
  note z = calculate_zero_error [OF fin fd'_def [unfolded al_def] I'_def out'_def c_def]
  from fin have f: "outputMin s = Fin (val (outputMin s))" "outputMax s = Fin (val (outputMax s))"
    "alpha s = Fin al" "maxRate s = Fin (val (maxRate s))"
    unfolding pid_finite_def al_def by (simp_all add: Fin_val [symmetric])
  from cfg have g: "val (outputMin s) \<le> val (outputMax s)" "0 \<le> al" "al \<le> 1"
    "0 \<le> val (maxRate s)"
    unfolding config_ok_def
    by (metis f(1,2) js_le_Fin, metis f(3) js_le_Fin, metis f(3) js_le_Fin, metis f(4) js_le_Fin)
  have st': "st' = \<lparr>ctrl = fst c, peaks = [], lastOutput_local = Fin out', lastCrossing = 0\<rparr>"
  proof -
    have c2: "calculate (ctrl \<lparr>ctrl = s, peaks = [], lastOutput_local = Fin 0, lastCrossing = 0\<rparr>)
        (Fin v) (Fin v) (Some (Fin 0.02)) (fst (clock 0)) (snd (clock 0)) = c"
      by (simp add: c_def)
    show ?thesis
      unfolding st'_def autoTune_body_def c2
      by (simp add: case_prod_beta z(1) Let_def)
  qed
  have ctrl': "ctrl st' = fst c" unfolding st' by simp
  show "kp (ctrl st') = kp s" "ki (ctrl st') = ki s" "kd (ctrl st') = kd s"
    unfolding ctrl' by (rule z)+
  have fin': "pid_finite (fst c)"
    using fin unfolding pid_finite_def z by simp
  have b': "val (outputMin s) \<le> out'" "out' \<le> val (outputMax s)"
    unfolding out'_def using g(1) by simp_all
  have fixp: "max (val (integralMin s)) (min (val (integralMax s)) I') = I'"
    unfolding I'_def by (simp add: max_def min_def)
  define u where "u = val (kd s) * ((1 - al) * fd')"
  define target where "target = val (ki s) * I' + u"
  have "zero_error_inv (0 \<le> u) st'"
  proof (rule zero_error_invI [where out = out' and u = u and target = target])
    show "pid_finite (ctrl st')" unfolding ctrl' by (rule fin')
    show "previousError (ctrl st') = Fin 0" unfolding ctrl' by (rule z)
    show "lastOutput_local st' = lastOutput (ctrl st')"
      unfolding ctrl' z unfolding st' by simp
    show "0 \<le> val (alpha (ctrl st'))" "val (alpha (ctrl st')) \<le> 1"
      unfolding ctrl' z using g(2,3) by (simp_all add: al_def)
    show "0 \<le> val (maxRate (ctrl st'))" unfolding ctrl' z by (rule g(4))
    show "max (val (integralMin (ctrl st')))
           (min (val (integralMax (ctrl st'))) (val (integral (ctrl st'))))
         = val (integral (ctrl st'))"
      unfolding ctrl' z using fixp by simp
    show "val (outputMin (ctrl st')) \<le> out'" "out' \<le> val (outputMax (ctrl st'))"
      unfolding ctrl' z by (rule b')+
    show "out' = val (lastOutput (ctrl st'))" unfolding ctrl' z by simp
    show "u = val (kd (ctrl st'))
           * ((1 - val (alpha (ctrl st'))) * val (filteredDerivative (ctrl st')))"
      unfolding ctrl' z u_def al_def by simp
    show "target = val (ki (ctrl st')) * val (integral (ctrl st')) + u"
      unfolding ctrl' z target_def by simp
    show "if 0 \<le> u then 0 \<le> u else u \<le> 0" by simp
    show "length (peaks st')
           + crossings_left (if 0 \<le> u then target \<le> out' else out' \<le> target)
               (if 0 \<le> u then out' else - out') \<le> 2"
      unfolding st' using crossings_left_le by simp
  qed
  then show "\<exists>falling. zero_error_inv falling st'" ..
qed

lemma autoTune_loop_from_start:
  fixes clock :: "nat \<Rightarrow> int \<times> int" and v :: real and cyc :: jsnum
  assumes fin: "pid_finite s" and cfg: "config_ok s"
  defines "st \<equiv> autoTune_loop clock (Fin v) (Fin v) cyc 0
     \<lparr>ctrl = s, peaks = [], lastOutput_local = Fin 0, lastCrossing = 0\<rparr>"
  shows "length (peaks st) \<le> 2" "kp (ctrl st) = kp s" "ki (ctrl st) = ki s"
    "kd (ctrl st) = kd s"
proof -
  define st1 where "st1 = autoTune_body clock (Fin v) (Fin v) 0
     \<lparr>ctrl = s, peaks = [], lastOutput_local = Fin 0, lastCrossing = 0\<rparr>"
  note f = autoTune_first_iteration [OF fin cfg, of clock v, folded st1_def]
  from f(1) obtain falling where inv: "zero_error_inv falling st1" ..
  have "length (peaks st) \<le> 2 \<and> kp (ctrl st) = kp s \<and> ki (ctrl st) = ki s
      \<and> kd (ctrl st) = kd s"
  proof (cases "js_ge (Fin (real (length (peaks st1)))) (js_mul cyc (Fin 2))")
    case True
    then have "st = st1"
      unfolding st_def by (subst autoTune_loop.simps) (simp add: st1_def Let_def)
    with zero_error_inv_peaks [OF inv] f(2-4) show ?thesis by simp
  next
    case False
    then have "st = autoTune_loop clock (Fin v) (Fin v) cyc 1 st1"
      unfolding st_def by (subst autoTune_loop.simps) (simp add: st1_def Let_def)
    with autoTune_loop_zero_error [OF inv, of clock v cyc 1] f(2-4) show ?thesis by simp
  qed
  then show "length (peaks st) \<le> 2" "kp (ctrl st) = kp s" "ki (ctrl st) = ki s"
    "kd (ctrl st) = kd s" by simp_all
qed

text \<open>
  Claim C9. On a controller whose numeric fields are finite and whose configuration is
  as the constructor leaves it in kind (output limits in order, filter coefficient in
  \<open>[0, 1]\<close>, slew rate non-negative), \<open>autoTune\<close> with the setpoint equal to the process
  variable reports \<open>success: false\<close> and leaves \<open>kp\<close>, \<open>ki\<close>, \<open>kd\<close> as they were, for any
  number of cycles asked for and whatever the accumulators hold.
\<close>

theorem autoTune_without_error_fails:
  fixes clock :: "nat \<Rightarrow> int \<times> int"
  assumes "pid_finite s" "config_ok s" "is_fin pv"
  shows "success (snd (autoTune s pv pv cycles_arg clock)) = False
       \<and> kp (fst (autoTune s pv pv cycles_arg clock)) = kp s
       \<and> ki (fst (autoTune s pv pv cycles_arg clock)) = ki s
       \<and> kd (fst (autoTune s pv pv cycles_arg clock)) = kd s"
proof -
  from assms(3) obtain v where v: "pv = Fin v" by (auto simp: is_fin_conv)
  define cyc where "cyc = (case cycles_arg of None \<Rightarrow> Fin 5 | Some c \<Rightarrow> c)"
  define st where "st = autoTune_loop clock pv pv cyc 0
     \<lparr>ctrl = s, peaks = [], lastOutput_local = Fin 0, lastCrossing = 0\<rparr>"
  note l = autoTune_loop_from_start [OF assms(1,2), of clock v cyc, folded v, folded st_def]
  from l(1) have k: "\<not> 4 \<le> length (peaks st)" by simp
  show ?thesis
    unfolding autoTune_def cyc_def [symmetric] Let_def st_def [symmetric]
    using k l(2-4) by simp
qed

theorem autoTune_without_error_fails_witness:
  "pid_finite loaded_pid \<and> config_ok loaded_pid \<and> is_fin (Fin 3)
   \<and> success (snd (autoTune loaded_pid (Fin 3) (Fin 3) None (\<lambda>n. (0, 0)))) = False
   \<and> kp (fst (autoTune loaded_pid (Fin 3) (Fin 3) None (\<lambda>n. (0, 0)))) = kp loaded_pid
   \<and> ki (fst (autoTune loaded_pid (Fin 3) (Fin 3) None (\<lambda>n. (0, 0)))) = ki loaded_pid
   \<and> kd (fst (autoTune loaded_pid (Fin 3) (Fin 3) None (\<lambda>n. (0, 0)))) = kd loaded_pid"
proof -
  have h: "pid_finite loaded_pid" "config_ok loaded_pid" "is_fin (Fin 3)"
    by (simp_all add: pid_finite_def config_ok_def loaded_pid_def createDefault_def
        PIDController_def)
  from autoTune_without_error_fails [OF h, where cycles_arg = None
      and clock = "\<lambda>n. (0, 0)"] h show ?thesis
    by blast
qed

section \<open>The two histories\<close>

lemma storeHistory_history_ok:
  assumes "history_ok s"
  shows "history_ok (storeHistory s e out c t)"
  using assms by (auto simp: history_ok_def storeHistory_def Let_def)

lemma calculate_history_ok:
  assumes "history_ok s"
  shows "history_ok (fst (calculate s sp cv dt now stamp))"
  unfolding calculate_def Let_def fst_conv
  by (rule storeHistory_history_ok) (use assms in \<open>simp add: history_ok_def\<close>)

lemma apply_call_history_ok:
  assumes "history_ok s"
  shows "history_ok (apply_call s c)"
proof (cases c)
  case (Calculate sp cv dt now stamp)
  with assms show ?thesis by (simp add: calculate_history_ok)
next
  case (Update cv now stamp)
  with assms show ?thesis by (simp add: update_def calculate_history_ok)
next
  case (StoreHistory e out comps now)
  with assms show ?thesis by (simp add: storeHistory_history_ok)
next
  case (Reset now)
  then show ?thesis by (simp add: reset_def history_ok_def)
next
  case (SetGains a b c)
  with assms show ?thesis by (simp add: setGains_def history_ok_def)
next
  case (SetParameters a b c)
  with assms show ?thesis by (simp add: setParameters_def history_ok_def)
qed

lemma apply_call_maxHistoryLength:
  "maxHistoryLength (apply_call s c) = maxHistoryLength s"
  by (cases c)
     (simp_all add: calculate_def update_def Let_def storeHistory_keeps reset_def
        setGains_def setParameters_def)

lemma states_after_history_ok:
  assumes "history_ok s"
  shows "list_all (\<lambda>s'. history_ok s' \<and> maxHistoryLength s' = maxHistoryLength s)
           (states_after s calls)"
  using assms
proof (induction calls arbitrary: s)
  case Nil
  then show ?case by simp
next
  case (Cons c calls)
  from Cons.IH [OF apply_call_history_ok [OF Cons.prems], of c] Cons.prems
  show ?case
    by (simp add: apply_call_history_ok apply_call_maxHistoryLength)
qed

lemma storeHistory_evicts_oldest:
  assumes "length (errorHistory s) = maxHistoryLength s"
    and "length (outputHistory s) = maxHistoryLength s"
  shows "errorHistory (storeHistory s e out c t) = tl (errorHistory s @ [e])"
    and "outputHistory (storeHistory s e out c t)
       = tl (outputHistory s @ [\<lparr>output_value = out, timestamp = t, components = c\<rparr>])"
  using assms by (simp_all add: storeHistory_def Let_def)

lemma update_basic_history_ok:
  assumes "history_ok_basic s"
  shows "history_ok_basic (fst (update_basic s cv now))"
  using assms by (auto simp: update_basic_def Let_def history_ok_basic_def)

lemma update_basic_evicts_oldest:
  assumes "length (errorHistory_b s) = maxHistoryLength_b s"
    and "js_gt (js_div (Fin (of_int (now - lastTime_b s))) (Fin 1000)) (Fin 0)"
  shows "errorHistory_b (fst (update_basic s cv now))
       = tl (errorHistory_b s @ [js_sub (setpoint_b s) cv])"
proof -
  from assms(2) have "\<not> js_le (js_div (Fin (of_int (now - lastTime_b s))) (Fin 1000)) (Fin 0)"
    by simp
  with assms(1) show ?thesis by (simp add: update_basic_def Let_def)
qed

text \<open>
  Claim C10. The histories of a new controller are empty and its capacity is 1000. From
  any state in which the two histories have the same length, at most the capacity, every
  state reached by \<open>calculate\<close>, \<open>update\<close>, \<open>storeHistory\<close>, \<open>reset\<close> and gain changes
  has that property and the same capacity; and when the histories are at capacity,
  \<open>storeHistory\<close> appends the new entries and drops the oldest entry of both. The basic
  controller's \<open>update\<close> keeps the same property.
\<close>

theorem histories_are_bounded_and_aligned:
  assumes "history_ok s"
  shows "history_ok (PIDController kp0 ki0 kd0 t1 t2)
       \<and> maxHistoryLength (PIDController kp0 ki0 kd0 t1 t2) = 1000
       \<and> list_all (\<lambda>s'. history_ok s' \<and> maxHistoryLength s' = maxHistoryLength s)
           (states_after s calls)
       \<and> (length (errorHistory s) = maxHistoryLength s \<longrightarrow>
            errorHistory (storeHistory s e out c t) = tl (errorHistory s @ [e])
          \<and> outputHistory (storeHistory s e out c t)
              = tl (outputHistory s @ [\<lparr>output_value = out, timestamp = t, components = c\<rparr>]))
       \<and> (history_ok_basic b \<longrightarrow> history_ok_basic (fst (update_basic b cv now)))"
proof -
  have "history_ok (PIDController kp0 ki0 kd0 t1 t2)"
    "maxHistoryLength (PIDController kp0 ki0 kd0 t1 t2) = 1000"
    by (simp_all add: history_ok_def PIDController_def)
  moreover from assms have "length (outputHistory s) = length (errorHistory s)"
    by (simp add: history_ok_def)
  ultimately show ?thesis
    using states_after_history_ok [OF assms] storeHistory_evicts_oldest
      update_basic_history_ok
    by simp
qed

theorem histories_are_bounded_and_aligned_witness:
  "history_ok full_pid
   \<and> length (errorHistory full_pid) = maxHistoryLength full_pid
   \<and> list_all (\<lambda>s'. history_ok s' \<and> maxHistoryLength s' = maxHistoryLength full_pid)
        (states_after full_pid
          [Calculate (Fin 0) (Fin 4) None 20 20, Update (Fin 3) 40 40,
           StoreHistory (Fin 1) (Fin 2) \<lparr>comp_p = Fin 1, comp_i = Fin 0, comp_d = Fin 1\<rparr> 41,
           Reset 50, SetGains (Fin 2) (Fin 0) (Fin 0)])
   \<and> errorHistory (storeHistory full_pid (Fin 1) (Fin 2)
          \<lparr>comp_p = Fin 1, comp_i = Fin 0, comp_d = Fin 1\<rparr> 41)
       = tl (errorHistory full_pid @ [Fin 1])
   \<and> outputHistory (storeHistory full_pid (Fin 1) (Fin 2)
          \<lparr>comp_p = Fin 1, comp_i = Fin 0, comp_d = Fin 1\<rparr> 41)
       = tl (outputHistory full_pid
             @ [\<lparr>output_value = Fin 2, timestamp = 41,
                 components = \<lparr>comp_p = Fin 1, comp_i = Fin 0, comp_d = Fin 1\<rparr>\<rparr>])
   \<and> history_ok_basic (PIDController_basic (Fin 1) (Fin 1) (Fin 1) 0)
   \<and> history_ok_basic (fst (update_basic (PIDController_basic (Fin 1) (Fin 1) (Fin 1) 0)
         (Fin 3) 16))"
proof -
  have h: "history_ok full_pid" "length (errorHistory full_pid) = maxHistoryLength full_pid"
    "history_ok_basic (PIDController_basic (Fin 1) (Fin 1) (Fin 1) 0)"
    by (simp_all add: history_ok_def history_ok_basic_def full_pid_def createDefault_def
        PIDController_def PIDController_basic_def)
  from histories_are_bounded_and_aligned [OF h(1), where e = "Fin 1" and out = "Fin 2"
      and c = "\<lparr>comp_p = Fin 1, comp_i = Fin 0, comp_d = Fin 1\<rparr>" and t = 41
      and b = "PIDController_basic (Fin 1) (Fin 1) (Fin 1) 0" and cv = "Fin 3" and now = 16] h
  show ?thesis by blast
qed

end
